theory Spec2Isabelle
  imports Main "HOL-Library.Sublist" "HOL-Library.Multiset"
begin

section \<open>The stop-arrivals function of orr-bus: live feed reconciled with the static timetable\<close>

text \<open>
  The development embeds the request handler \<^verbatim>\<open>onRequest\<close> and the functions it calls
  (\<^verbatim>\<open>mapDestinationToLine\<close>, \<^verbatim>\<open>parseBMTCDate\<close>, \<^verbatim>\<open>convertBMTCToTimetableFormat\<close>,
  \<^verbatim>\<open>loadStaticTimetable\<close>, \<^verbatim>\<open>parseCSVLine\<close>, \<^verbatim>\<open>getCORSHeaders\<close>, \<^verbatim>\<open>handleCORS\<close>).

  Conventions of the embedding.
  \<^item> A JavaScript string is a \<open>string\<close>; a \<open>char\<close> stands for one code unit in the range
    U+0000..U+00FF.
  \<^item> A value that may be \<^verbatim>\<open>null\<close> or \<^verbatim>\<open>undefined\<close> is an \<open>option\<close>, \<open>None\<close> being the missing value.
  \<^item> A JavaScript number that the code computes from digits is an \<open>int option\<close>, \<open>None\<close> being
    \<^verbatim>\<open>NaN\<close>. Integers are exact here; JavaScript rounds above \<open>2 ^ 53\<close>, which only changes the
    text handed to the runtime's date parser, and that parser is a parameter of the model.
  \<^item> An exception is the left summand of a sum type; \<^verbatim>\<open>try/catch\<close> is a case distinction on it.
  \<^item> The outcome of a \<^verbatim>\<open>fetch\<close>, the clock and the runtime's \<^verbatim>\<open>new Date(text)\<close> are inputs.
\<close>

subsection \<open>Strings of the JavaScript runtime\<close>

text \<open>White space as \<^verbatim>\<open>String.prototype.trim\<close> and the regular-expression class \<^verbatim>\<open>\s\<close> see it:
  TAB, LF, VT, FF, CR, SPACE and NBSP among the first 256 code units.\<close>

definition isWhiteSpace :: "char \<Rightarrow> bool" where
  "isWhiteSpace c \<longleftrightarrow> c \<in> {CHR 0x09, CHR 0x0A, CHR 0x0B, CHR 0x0C, CHR 0x0D, CHR 0x20, CHR 0xA0}"

text \<open>The class \<^verbatim>\<open>\d\<close>: the ten ASCII digits.\<close>

definition isDigit :: "char \<Rightarrow> bool" where
  "isDigit c \<longleftrightarrow> c \<in> set ''0123456789''"

text \<open>\<^verbatim>\<open>s.trim()\<close>\<close>

definition trim :: "string \<Rightarrow> string" where
  "trim s = rev (dropWhile isWhiteSpace (rev (dropWhile isWhiteSpace s)))"

text \<open>\<^verbatim>\<open>s.includes(p)\<close>: some suffix of \<open>s\<close> starts with \<open>p\<close>.\<close>

fun includes_str :: "string \<Rightarrow> string \<Rightarrow> bool" where
  "includes_str [] p = (p = [])"
| "includes_str (c # cs) p = (prefix p (c # cs) \<or> includes_str cs p)"

text \<open>\<^verbatim>\<open>s.split(sep)\<close> for a separator of one character: always at least one piece.\<close>

fun splitOn :: "char \<Rightarrow> string \<Rightarrow> string list" where
  "splitOn sep [] = [[]]"
| "splitOn sep (c # cs) =
     (if c = sep then [] # splitOn sep cs
      else (case splitOn sep cs of p # ps \<Rightarrow> (c # p) # ps | [] \<Rightarrow> [[c]]))"

text \<open>\<^verbatim>\<open>xs[i]\<close>, which is \<^verbatim>\<open>undefined\<close> out of range.\<close>

definition elemAt :: "'a list \<Rightarrow> nat \<Rightarrow> 'a option" where
  "elemAt xs i = (if i < length xs then Some (xs ! i) else None)"

text \<open>Truthiness of a value that is a string, \<^verbatim>\<open>null\<close> or \<^verbatim>\<open>undefined\<close>.\<close>

definition truthy :: "string option \<Rightarrow> bool" where
  "truthy v \<longleftrightarrow> (case v of None \<Rightarrow> False | Some s \<Rightarrow> s \<noteq> [])"

subsection \<open>Destination normalizer\<close>

definition mapDestinationToLine :: "string option \<Rightarrow> string" where
  "mapDestinationToLine destination =
     (if \<not> truthy destination then ''Unknown''
      else let normalized = trim (the destination) in
        if normalized = ''KR Pura'' \<or> includes_str normalized ''KR Pura'' then ''Purple Line''
        else if normalized = ''Silk Board'' \<or> includes_str normalized ''Silk Board'' then ''Yellow Line''
        else ''Unknown'')"

subsection \<open>CSV line parser\<close>

text \<open>The loop of \<^verbatim>\<open>parseCSVLine\<close> over the characters of the line; the state is
  \<^verbatim>\<open>result\<close>, \<^verbatim>\<open>current\<close> and \<^verbatim>\<open>inQuotes\<close>.\<close>

fun parseCSVLoop :: "string list \<Rightarrow> string \<Rightarrow> bool \<Rightarrow> string \<Rightarrow> string list" where
  "parseCSVLoop result current inQuotes [] = result @ [trim current]"
| "parseCSVLoop result current inQuotes (char # rest) =
     (if char = CHR 0x22 then parseCSVLoop result current (\<not> inQuotes) rest
      else if char = CHR '','' \<and> \<not> inQuotes then parseCSVLoop (result @ [trim current]) [] inQuotes rest
      else parseCSVLoop result (current @ [char]) inQuotes rest)"

definition parseCSVLine :: "string \<Rightarrow> string list" where
  "parseCSVLine line = parseCSVLoop [] [] False line"

subsection \<open>Data model\<close>

record trip =
  route_name :: string
  time :: string
  towards :: string

text \<open>The object \<^verbatim>\<open>{ trips, routes, towards }\<close>; its third field is named \<open>result_towards\<close>
  since \<open>towards\<close> is the field of a trip.\<close>

record timetable_result =
  trips :: "trip list"
  routes :: "string list"
  result_towards :: string

text \<open>One arrival record of the live feed. The feed is JSON: \<^verbatim>\<open>tostationname\<close> may be
  missing (\<open>None\<close>), and \<^verbatim>\<open>arrivaltime\<close> may be missing or no string (\<open>None\<close>).\<close>

record bmtc_trip =
  routeno :: string
  tostationname :: "string option"
  arrivaltime :: "string option"

datatype js_error = TypeError | SyntaxError | FetchError | HttpError

text \<open>The mutable locals \<^verbatim>\<open>trips\<close>, \<^verbatim>\<open>routes\<close> (a \<^verbatim>\<open>Set\<close>, kept in insertion order) and
  \<^verbatim>\<open>towards\<close> of both loaders.\<close>

record acc =
  acc_trips :: "trip list"
  acc_routes :: "string list"
  acc_towards :: "string option"

definition emptyAcc :: "string option \<Rightarrow> acc" where
  "emptyAcc t = \<lparr>acc_trips = [], acc_routes = [], acc_towards = t\<rparr>"

text \<open>\<^verbatim>\<open>routes.add(x)\<close>\<close>

definition setAdd :: "string \<Rightarrow> string list \<Rightarrow> string list" where
  "setAdd x xs = (if x \<in> set xs then xs else xs @ [x])"

subsection \<open>Numbers and their text\<close>

definition digitVal :: "char \<Rightarrow> nat" where
  "digitVal c = of_char c - 48"

definition digitsVal :: "string \<Rightarrow> nat" where
  "digitsVal ds = foldl (\<lambda>a c. 10 * a + digitVal c) 0 ds"

text \<open>\<^verbatim>\<open>parseInt(x, 10)\<close>: leading white space, an optional sign, then the longest run of
  digits; \<^verbatim>\<open>NaN\<close> without a digit, and for \<^verbatim>\<open>undefined\<close>.\<close>

definition parseInt10 :: "string option \<Rightarrow> int option" where
  "parseInt10 x =
     (case x of None \<Rightarrow> None
      | Some s \<Rightarrow>
         (let t = dropWhile isWhiteSpace s;
              neg = (case t of c # _ \<Rightarrow> c = CHR ''-'' | [] \<Rightarrow> False);
              u = (case t of c # r \<Rightarrow> if c = CHR ''-'' \<or> c = CHR ''+'' then r else t | [] \<Rightarrow> []);
              ds = takeWhile isDigit u
          in if ds = [] then None
             else Some (if neg then - int (digitsVal ds) else int (digitsVal ds))))"

definition digitChar :: "nat \<Rightarrow> char" where
  "digitChar d = ''0123456789'' ! d"

fun natToString :: "nat \<Rightarrow> string" where
  "natToString n =
     (if n < 10 then [digitChar n]
      else natToString (n div 10) @ [digitChar (n mod 10)])"

declare natToString.simps [simp del]

text \<open>\<^verbatim>\<open>String(n)\<close> for an integer or \<^verbatim>\<open>NaN\<close>.\<close>

definition numToString :: "int option \<Rightarrow> string" where
  "numToString n =
     (case n of None \<Rightarrow> ''NaN''
      | Some i \<Rightarrow> if i < 0 then CHR ''-'' # natToString (nat (- i)) else natToString (nat i))"

text \<open>\<^verbatim>\<open>s.padStart(2, '0')\<close>\<close>

definition padStart2 :: "string \<Rightarrow> string" where
  "padStart2 s = replicate (2 - length s) CHR ''0'' @ s"

text \<open>\<^verbatim>\<open>Number(s)\<close> on the texts the sort of the live adapter applies it to: white space is
  trimmed, the empty text is 0, a run of digits is its value, anything else counts as
  \<^verbatim>\<open>NaN\<close>. Signs, fractions, exponents and radix prefixes are not modelled; no time text
  that the adapter builds has them.\<close>

definition toNumber :: "string \<Rightarrow> int option" where
  "toNumber s =
     (let t = trim s in
      if t = [] then Some 0
      else if list_all isDigit t then Some (int (digitsVal t))
      else None)"

subsection \<open>Live feed adapter\<close>

text \<open>\<^verbatim>\<open>parseBMTCDate\<close>. The parameter \<open>newDate\<close> is the runtime's \<^verbatim>\<open>new Date(isoString)\<close>
  read as milliseconds since the epoch, \<open>None\<close> for an invalid date. \<^verbatim>\<open>parts[0]\<close> always
  exists, as \<^verbatim>\<open>split\<close> returns at least one piece.\<close>

definition parseBMTCDate :: "(string \<Rightarrow> int option) \<Rightarrow> string \<Rightarrow> int option" where
  "parseBMTCDate newDate dateString =
     (let parts = splitOn CHR '' '' dateString;
          dateParts = splitOn CHR ''-'' (hd parts);
          timeParts = (if truthy (elemAt parts 1) then splitOn CHR '':'' (the (elemAt parts 1))
                       else [''0'', ''0'', ''0'']);
          day = parseInt10 (elemAt dateParts 0);
          month = map_option (\<lambda>m. m - 1) (parseInt10 (elemAt dateParts 1));
          year = parseInt10 (elemAt dateParts 2);
          hours = parseInt10 (elemAt timeParts 0);
          minutes = parseInt10 (elemAt timeParts 1);
          seconds = parseInt10 (elemAt timeParts 2);
          isoString = numToString year @ ''-''
            @ padStart2 (numToString (map_option (\<lambda>m. m + 1) month)) @ ''-''
            @ padStart2 (numToString day) @ ''T''
            @ padStart2 (numToString hours) @ '':''
            @ padStart2 (numToString minutes) @ '':''
            @ padStart2 (numToString seconds) @ ''+05:30''
      in newDate isoString)"

text \<open>The regular expression \<^verbatim>\<open>/\s(\d{2}):(\d{2}):\d{2}/\<close> at the start of a text, and its
  leftmost match in a text; the result is the two groups.\<close>

fun timeMatchHere :: "string \<Rightarrow> (string \<times> string) option" where
  "timeMatchHere (w # h1 # h2 # c1 # m1 # m2 # c2 # s1 # s2 # rest) =
     (if isWhiteSpace w \<and> isDigit h1 \<and> isDigit h2 \<and> c1 = CHR '':'' \<and> isDigit m1 \<and> isDigit m2
         \<and> c2 = CHR '':'' \<and> isDigit s1 \<and> isDigit s2
      then Some ([h1, h2], [m1, m2]) else None)"
| "timeMatchHere _ = None"

fun timeMatch :: "string \<Rightarrow> (string \<times> string) option" where
  "timeMatch [] = None"
| "timeMatch (c # cs) =
     (case timeMatchHere (c # cs) of Some g \<Rightarrow> Some g | None \<Rightarrow> timeMatch cs)"

text \<open>The text of the trip's time: the groups of the match, or the clock of UTC+05:30
  recomputed from the instant. With an invalid date every comparison is false and the text
  is \<^verbatim>\<open>NaN:NaN\<close>.\<close>

definition istFallback :: "int option \<Rightarrow> string" where
  "istFallback arrivalTime =
     (case arrivalTime of
        None \<Rightarrow> padStart2 (numToString None) @ '':'' @ padStart2 (numToString None)
      | Some t \<Rightarrow>
         (let utcHours = (t div 3600000) mod 24;
              utcMinutes = (t div 60000) mod 60;
              istHours = utcHours + 5;
              istMinutes = utcMinutes + 30;
              istHours1 = (if istMinutes \<ge> 60 then istHours + 1 else istHours);
              istMinutes1 = (if istMinutes \<ge> 60 then istMinutes - 60 else istMinutes);
              istHours2 = (if istHours1 \<ge> 24 then istHours1 - 24 else istHours1)
          in padStart2 (numToString (Some istHours2)) @ '':''
             @ padStart2 (numToString (Some istMinutes1))))"

definition timeStringOf :: "int option \<Rightarrow> string \<Rightarrow> string" where
  "timeStringOf arrivalTime text =
     (case timeMatch text of
        Some (g1, g2) \<Rightarrow> g1 @ '':'' @ g2
      | None \<Rightarrow> istFallback arrivalTime)"

text \<open>The test \<^verbatim>\<open>duration_ms < 0 || duration_ms > 90 * 60 * 1000\<close>; false for \<^verbatim>\<open>NaN\<close>.\<close>

definition outsideWindow :: "int option \<Rightarrow> bool" where
  "outsideWindow duration_ms \<longleftrightarrow>
     (case duration_ms of None \<Rightarrow> False | Some d \<Rightarrow> d < 0 \<or> d > 90 * 60 * 1000)"

text \<open>The callback of \<^verbatim>\<open>data.forEach\<close>. Reading the arrival time of a record that has none
  throws a \<^verbatim>\<open>TypeError\<close>.\<close>

definition liveStep ::
  "(string \<Rightarrow> int option) \<Rightarrow> int \<Rightarrow> string set option \<Rightarrow> string option \<Rightarrow> acc \<Rightarrow> bmtc_trip
     \<Rightarrow> js_error + acc" where
  "liveStep newDate now allowedRoutes staticTowards a trip =
     (let routeNo = routeno trip;
          destination = tostationname trip
      in if (case allowedRoutes of None \<Rightarrow> False | Some allowed \<Rightarrow> routeNo \<notin> allowed) then Inr a
         else (case arrivaltime trip of
            None \<Rightarrow> Inl TypeError
          | Some text \<Rightarrow>
             (let arrivalTime = parseBMTCDate newDate text;
                  duration_ms = map_option (\<lambda>t. t - now) arrivalTime
              in if outsideWindow duration_ms then Inr a
                 else
                  (let timeString = timeStringOf arrivalTime text;
                       lineName = (if truthy staticTowards then the staticTowards
                                   else mapDestinationToLine destination);
                       towards1 = (if \<not> truthy (acc_towards a) then Some lineName
                                   else acc_towards a)
                   in Inr \<lparr>acc_trips = acc_trips a
                              @ [\<lparr>route_name = routeNo, time = timeString, towards = lineName\<rparr>],
                            acc_routes = setAdd routeNo (acc_routes a),
                            acc_towards = towards1\<rparr>))))"

text \<open>\<^verbatim>\<open>data.forEach\<close>: the first exception ends the loop.\<close>

fun forEachLive ::
  "(string \<Rightarrow> int option) \<Rightarrow> int \<Rightarrow> string set option \<Rightarrow> string option \<Rightarrow> acc \<Rightarrow> bmtc_trip list
     \<Rightarrow> js_error + acc" where
  "forEachLive newDate now allowedRoutes staticTowards a [] = Inr a"
| "forEachLive newDate now allowedRoutes staticTowards a (trip # rest) =
     (case liveStep newDate now allowedRoutes staticTowards a trip of
        Inl e \<Rightarrow> Inl e
      | Inr a' \<Rightarrow> forEachLive newDate now allowedRoutes staticTowards a' rest)"

text \<open>The number the comparator computes for a trip: \<^verbatim>\<open>hours * 60 + minutes\<close> of the first
  two pieces of its time, \<^verbatim>\<open>NaN\<close> when one of them is missing or no number.\<close>

definition timeOfDay :: "trip \<Rightarrow> int option" where
  "timeOfDay a =
     (let ps = map toNumber (splitOn CHR '':'' (time a))
      in case (elemAt ps 0, elemAt ps 1) of
           (Some (Some aHours), Some (Some aMinutes)) \<Rightarrow> Some (aHours * 60 + aMinutes)
         | _ \<Rightarrow> None)"

definition compareTrips :: "trip \<Rightarrow> trip \<Rightarrow> int option" where
  "compareTrips a b =
     (case (timeOfDay a, timeOfDay b) of
        (Some aTime, Some bTime) \<Rightarrow> Some (aTime - bTime)
      | _ \<Rightarrow> None)"

text \<open>\<^verbatim>\<open>Array.prototype.sort(comparefn)\<close>. The language fixes the result for a consistent
  comparator: the stable sorted arrangement, which insertion from the right computes. A
  comparator value \<^verbatim>\<open>NaN\<close> counts as 0; the order is then left to the implementation, and
  the statements about order below are made for numeric keys only.\<close>

definition sortCompare :: "('a \<Rightarrow> 'a \<Rightarrow> int option) \<Rightarrow> 'a \<Rightarrow> 'a \<Rightarrow> int" where
  "sortCompare comparefn x y = (case comparefn x y of None \<Rightarrow> 0 | Some v \<Rightarrow> v)"

fun sortInsert :: "('a \<Rightarrow> 'a \<Rightarrow> int option) \<Rightarrow> 'a \<Rightarrow> 'a list \<Rightarrow> 'a list" where
  "sortInsert comparefn x [] = [x]"
| "sortInsert comparefn x (y # ys) =
     (if sortCompare comparefn x y \<le> 0 then x # y # ys else y # sortInsert comparefn x ys)"

definition arraySort :: "('a \<Rightarrow> 'a \<Rightarrow> int option) \<Rightarrow> 'a list \<Rightarrow> 'a list" where
  "arraySort comparefn xs = foldr (sortInsert comparefn) xs []"

definition convertBMTCToTimetableFormat ::
  "(string \<Rightarrow> int option) \<Rightarrow> int \<Rightarrow> bmtc_trip list \<Rightarrow> string set option \<Rightarrow> string option
     \<Rightarrow> js_error + timetable_result" where
  "convertBMTCToTimetableFormat newDate now data allowedRoutes staticTowards =
     (let towards0 = (if truthy staticTowards then staticTowards else None)
      in case forEachLive newDate now allowedRoutes staticTowards (emptyAcc towards0) data of
           Inl e \<Rightarrow> Inl e
         | Inr a \<Rightarrow>
            (let finalTowards =
                   (if truthy staticTowards then the staticTowards
                    else if truthy (acc_towards a) \<and> acc_towards a \<noteq> Some ''Unknown''
                         then the (acc_towards a) else ''Unknown'')
             in Inr \<lparr>trips = arraySort compareTrips (acc_trips a),
                      routes = acc_routes a,
                      result_towards = finalTowards\<rparr>))"

subsection \<open>Static timetable loader\<close>

text \<open>What \<^verbatim>\<open>fetch(timetableUrl)\<close> does: it rejects, or it resolves to a response with its
  \<^verbatim>\<open>ok\<close> flag and its text (\<open>None\<close> when reading the text rejects).\<close>

datatype static_fetch = StaticRejected | StaticResponse bool "string option"

text \<open>The body of the \<^verbatim>\<open>for\<close> loop over the lines.\<close>

definition staticStep :: "acc \<Rightarrow> string \<Rightarrow> acc" where
  "staticStep a rawLine =
     (let line = trim rawLine
      in if line = [] then a
         else
          (let values = parseCSVLine line
           in if length values \<ge> 4 then
                (let route_name = values ! 1;
                     time = values ! 2;
                     towards_direction = values ! 3;
                     lineName = mapDestinationToLine (Some towards_direction)
                 in \<lparr>acc_trips = acc_trips a
                        @ [\<lparr>route_name = route_name, time = time, towards = lineName\<rparr>],
                      acc_routes = setAdd route_name (acc_routes a),
                      acc_towards = (if \<not> truthy (acc_towards a) then Some lineName
                                     else acc_towards a)\<rparr>)
              else a))"

text \<open>The \<^verbatim>\<open>try\<close> block of \<^verbatim>\<open>loadStaticTimetable\<close>; the loop starts at index 1.\<close>

definition loadStaticTry :: "static_fetch \<Rightarrow> js_error + timetable_result" where
  "loadStaticTry f =
     (case f of
        StaticRejected \<Rightarrow> Inl FetchError
      | StaticResponse ok body \<Rightarrow>
         if \<not> ok then Inl HttpError
         else (case body of
            None \<Rightarrow> Inl FetchError
          | Some csvText \<Rightarrow>
             (let lines = splitOn CHR 0x0A csvText;
                  a = foldl staticStep (emptyAcc None) (drop 1 lines);
                  finalTowards = (if truthy (acc_towards a) \<and> acc_towards a \<noteq> Some ''Unknown''
                                  then the (acc_towards a) else ''Unknown'')
              in Inr \<lparr>trips = acc_trips a, routes = acc_routes a,
                       result_towards = finalTowards\<rparr>)))"

definition loadStaticTimetable :: "static_fetch \<Rightarrow> timetable_result" where
  "loadStaticTimetable f =
     (case loadStaticTry f of
        Inr r \<Rightarrow> r
      | Inl error \<Rightarrow> \<lparr>trips = [], routes = [], result_towards = ''Unknown''\<rparr>)"

subsection \<open>Request handler\<close>

text \<open>What the handler reads of the request: \<^verbatim>\<open>request.method\<close> and the query parameter
  \<^verbatim>\<open>stopid\<close> of its URL.\<close>

record request =
  http_method :: string
  stopid :: "string option"

datatype response_body =
    NoBody
  | TextBody string
  | ErrorBody string "js_error option"
  | TimetableBody timetable_result

text \<open>A response; \<open>ErrorBody e m\<close> is the JSON object with the field \<^verbatim>\<open>error\<close> and, when
  \<open>m\<close> is an exception, the field \<^verbatim>\<open>message\<close> with its message.\<close>

record response =
  status :: nat
  headers :: "(string \<times> string) list"
  body :: response_body

definition getCORSHeaders :: "(string \<times> string) list" where
  "getCORSHeaders =
     [(''Access-Control-Allow-Origin'', ''*''),
      (''Access-Control-Allow-Methods'', ''GET, OPTIONS''),
      (''Access-Control-Allow-Headers'', ''Content-Type'')]"

definition handleCORS :: response where
  "handleCORS = \<lparr>status = 204, headers = getCORSHeaders, body = NoBody\<rparr>"

definition timetableResponse :: "timetable_result \<Rightarrow> response" where
  "timetableResponse r =
     \<lparr>status = 200,
      headers = [(''Content-Type'', ''application/json''),
                 (''Cache-Control'', ''no-cache, no-store, must-revalidate''),
                 (''Pragma'', ''no-cache''),
                 (''Expires'', ''0'')] @ getCORSHeaders,
      body = TimetableBody r\<rparr>"

text \<open>What the request to the live feed does: it rejects, or it resolves to a response with
  its \<^verbatim>\<open>ok\<close> flag and its JSON: unreadable (reading it throws), or an object with the truth
  value of \<^verbatim>\<open>Issuccess\<close> and with \<^verbatim>\<open>data\<close>, an array of records when present. The route of
  a record is taken to be a string, as the routes of the timetable are.\<close>

datatype live_json = JsonError | JsonBody bool "bmtc_trip list option"

datatype live_fetch = LiveRejected | LiveResponse bool live_json

text \<open>The inner \<^verbatim>\<open>try\<close> block: the value of \<^verbatim>\<open>liveData\<close> after it, or the exception.\<close>

definition liveTry ::
  "(string \<Rightarrow> int option) \<Rightarrow> int \<Rightarrow> timetable_result \<Rightarrow> live_fetch
     \<Rightarrow> js_error + timetable_result option" where
  "liveTry newDate now staticData lf =
     (let allowedRoutes = set (routes staticData)
      in case lf of
           LiveRejected \<Rightarrow> Inl FetchError
         | LiveResponse ok json \<Rightarrow>
            if ok then
              (case json of
                 JsonError \<Rightarrow> Inl SyntaxError
               | JsonBody Issuccess dat \<Rightarrow>
                  if Issuccess \<and> dat \<noteq> None \<and> length (the dat) > 0 then
                    (case convertBMTCToTimetableFormat newDate now (the dat)
                            (Some allowedRoutes) (Some (result_towards staticData)) of
                       Inl e \<Rightarrow> Inl e
                     | Inr r \<Rightarrow> Inr (Some r))
                  else Inr None)
            else Inr None)"

text \<open>The inner \<^verbatim>\<open>try/catch\<close>: an exception leaves \<^verbatim>\<open>liveData\<close> at \<^verbatim>\<open>null\<close>.\<close>

definition liveAttempt ::
  "(string \<Rightarrow> int option) \<Rightarrow> int \<Rightarrow> timetable_result \<Rightarrow> live_fetch \<Rightarrow> timetable_result option" where
  "liveAttempt newDate now staticData lf =
     (case liveTry newDate now staticData lf of Inl liveError \<Rightarrow> None | Inr liveData \<Rightarrow> liveData)"

text \<open>The outer \<^verbatim>\<open>try\<close> block of \<^verbatim>\<open>onRequest\<close>.\<close>

definition onRequestTry ::
  "(string \<Rightarrow> int option) \<Rightarrow> int \<Rightarrow> static_fetch \<Rightarrow> live_fetch \<Rightarrow> request
     \<Rightarrow> js_error + response" where
  "onRequestTry newDate now sf lf req =
     (let stopId = stopid req
      in if \<not> truthy stopId then
           Inr \<lparr>status = 400,
                headers = (''Content-Type'', ''application/json'') # getCORSHeaders,
                body = ErrorBody ''stopid parameter is required'' None\<rparr>
         else
          (let staticData = loadStaticTimetable sf;
               liveData = liveAttempt newDate now staticData lf
           in if liveData \<noteq> None \<and> length (trips (the liveData)) > 0
              then Inr (timetableResponse (the liveData))
              else Inr (timetableResponse staticData)))"

definition onRequest ::
  "(string \<Rightarrow> int option) \<Rightarrow> int \<Rightarrow> static_fetch \<Rightarrow> live_fetch \<Rightarrow> request \<Rightarrow> response" where
  "onRequest newDate now sf lf req =
     (if http_method req = ''OPTIONS'' then handleCORS
      else if http_method req \<noteq> ''GET'' then
        \<lparr>status = 405, headers = getCORSHeaders, body = TextBody ''Method not allowed''\<rparr>
      else (case onRequestTry newDate now sf lf req of
              Inr resp \<Rightarrow> resp
            | Inl error \<Rightarrow>
               \<lparr>status = 500,
                headers = (''Content-Type'', ''application/json'') # getCORSHeaders,
                body = ErrorBody ''Failed to fetch stop data'' (Some error)\<rparr>))"

subsection \<open>Notions used to state the properties\<close>

text \<open>The trip that the static loader builds from the fields of a row.\<close>

definition rowTrip :: "string list \<Rightarrow> trip" where
  "rowTrip values =
     \<lparr>route_name = values ! 1, time = values ! 2,
      towards = mapDestinationToLine (Some (values ! 3))\<rparr>"

text \<open>The rows of a CSV text that count: every line but the first, trimmed, not empty,
  parsed, with four fields or more.\<close>

definition staticRows :: "string \<Rightarrow> string list list" where
  "staticRows csvText =
     filter (\<lambda>values. 4 \<le> length values)
       (map parseCSVLine (filter (\<lambda>line. line \<noteq> []) (map trim (drop 1 (splitOn CHR 0x0A csvText)))))"

text \<open>The number of quotes of a text, the text without its quotes, and the texts in which
  every comma stands inside quotes, that is, after an odd number of quotes.\<close>

definition quoteCount :: "string \<Rightarrow> nat" where
  "quoteCount s = length (filter (\<lambda>c. c = CHR 0x22) s)"

definition unquoted :: "string \<Rightarrow> string" where
  "unquoted s = filter (\<lambda>c. c \<noteq> CHR 0x22) s"

definition commasInsideQuotes :: "string \<Rightarrow> bool" where
  "commasInsideQuotes f \<longleftrightarrow>
     (\<forall>i \<in> {..<length f}. f ! i = CHR '','' \<longrightarrow> odd (quoteCount (take i f)))"

text \<open>The arrival instant of a record of the live feed.\<close>

definition arrivalOf :: "(string \<Rightarrow> int option) \<Rightarrow> bmtc_trip \<Rightarrow> int option" where
  "arrivalOf newDate r =
     (case arrivaltime r of None \<Rightarrow> None | Some text \<Rightarrow> parseBMTCDate newDate text)"

text \<open>A record is excluded by the time window when its arrival instant is before \<open>now\<close> or
  more than 90 minutes after it.\<close>

definition windowExcludes :: "(string \<Rightarrow> int option) \<Rightarrow> int \<Rightarrow> bmtc_trip \<Rightarrow> bool" where
  "windowExcludes newDate now r \<longleftrightarrow>
     (case arrivalOf newDate r of
        None \<Rightarrow> False
      | Some t \<Rightarrow> t < now \<or> t > now + 90 * 60 * 1000)"

text \<open>A record is kept when the allowlist, if there is one, has its route and the time
  window does not exclude it.\<close>

definition liveKept ::
  "(string \<Rightarrow> int option) \<Rightarrow> int \<Rightarrow> string set option \<Rightarrow> bmtc_trip \<Rightarrow> bool" where
  "liveKept newDate now allowedRoutes r \<longleftrightarrow>
     (case allowedRoutes of None \<Rightarrow> True | Some allowed \<Rightarrow> routeno r \<in> allowed)
     \<and> \<not> windowExcludes newDate now r"

text \<open>The trip built from a kept record.\<close>

definition liveTripOf :: "(string \<Rightarrow> int option) \<Rightarrow> string option \<Rightarrow> bmtc_trip \<Rightarrow> trip" where
  "liveTripOf newDate staticTowards r =
     \<lparr>route_name = routeno r,
      time = timeStringOf (arrivalOf newDate r) (case arrivaltime r of None \<Rightarrow> [] | Some text \<Rightarrow> text),
      towards = (if truthy staticTowards then the staticTowards
                 else mapDestinationToLine (tostationname r))\<rparr>"

text \<open>Non-decreasing time of day, on the numbers the comparator computes; as in JavaScript,
  a comparison with \<^verbatim>\<open>NaN\<close> is false.\<close>

definition timeLeq :: "trip \<Rightarrow> trip \<Rightarrow> bool" where
  "timeLeq a b \<longleftrightarrow>
     (case (timeOfDay a, timeOfDay b) of (Some x, Some y) \<Rightarrow> x \<le> y | _ \<Rightarrow> False)"

text \<open>The shape \<^verbatim>\<open>HH:MM\<close>: two digits, a colon, two digits.\<close>

definition isHHMM :: "string \<Rightarrow> bool" where
  "isHHMM s \<longleftrightarrow>
     (case s of
        [h1, h2, c, m1, m2] \<Rightarrow> isDigit h1 \<and> isDigit h2 \<and> c = CHR '':'' \<and> isDigit m1 \<and> isDigit m2
      | _ \<Rightarrow> False)"

text \<open>An arrival text has a readable clock when the pattern matches it or the runtime
  parses the date built from it.\<close>

definition clockReadable :: "(string \<Rightarrow> int option) \<Rightarrow> string \<Rightarrow> bool" where
  "clockReadable newDate text \<longleftrightarrow> timeMatch text \<noteq> None \<or> parseBMTCDate newDate text \<noteq> None"

text \<open>Inputs for the examples: a date parser that knows 31 October 2025 at 14:30, 15:00 and
  16:30, UTC+05:30; the instant 14:10 of that day; a timetable of two rows, later before
  earlier, after its header and before a short row; a feed of four records, of which the
  second has a route that the timetable lacks and the fourth arrives too late.\<close>

definition exampleDate :: "string \<Rightarrow> int option" where
  "exampleDate isoString =
     (if isoString = ''2025-10-31T14:30:00+05:30'' then Some 1761901200000
      else if isoString = ''2025-10-31T15:00:00+05:30'' then Some 1761903000000
      else if isoString = ''2025-10-31T16:30:00+05:30'' then Some 1761908400000
      else None)"

definition exampleNow :: int where
  "exampleNow = 1761900000000"

definition exampleCsv :: string where
  "exampleCsv = ''trip,route,time,towards\<newline>1,500D,10:30:00,KR Pura\<newline>2,500A,09:15:00,\"KR Pura, Tin Factory\"\<newline>3,500D\<newline>''"

definition exampleFeed :: "bmtc_trip list" where
  "exampleFeed =
     [\<lparr>routeno = ''500D'', tostationname = Some ''KR Pura'', arrivaltime = Some ''31-10-2025 15:00:00''\<rparr>,
      \<lparr>routeno = ''335E'', tostationname = Some ''Kadugodi'', arrivaltime = Some ''31-10-2025 14:30:00''\<rparr>,
      \<lparr>routeno = ''500A'', tostationname = Some ''KR Pura'', arrivaltime = Some ''31-10-2025 14:30:00''\<rparr>,
      \<lparr>routeno = ''500D'', tostationname = Some ''KR Pura'', arrivaltime = Some ''31-10-2025 16:30:00''\<rparr>]"

definition exampleRequest :: request where
  "exampleRequest = \<lparr>http_method = ''GET'', stopid = Some ''20568''\<rparr>"

section \<open>Properties\<close>

subsection \<open>Strings\<close>

lemma includes_str_sublist: "includes_str s p \<longleftrightarrow> sublist p s"
  by (induction s) (auto simp: sublist_Cons_right)

lemma includes_str_iff: "includes_str s p \<longleftrightarrow> (\<exists>u v. s = u @ p @ v)"
  by (simp add: includes_str_sublist sublist_def)

lemma trim_Nil: "trim [] = []"
  by (simp add: trim_def)

lemma set_trim: "set (trim s) \<subseteq> set s"
proof -
  have "set (dropWhile isWhiteSpace (rev (dropWhile isWhiteSpace s))) \<subseteq> set (rev (dropWhile isWhiteSpace s))"
    by (meson set_dropWhileD subsetI)
  also have "\<dots> \<subseteq> set s" by (auto dest: set_dropWhileD)
  finally show ?thesis by (simp add: trim_def)
qed

lemma trim_fixed: "s = [] \<or> (\<not> isWhiteSpace (hd s) \<and> \<not> isWhiteSpace (last s)) \<Longrightarrow> trim s = s"
proof (cases "s = []")
  case True then show ?thesis by (simp add: trim_def)
next
  case False
  assume "s = [] \<or> (\<not> isWhiteSpace (hd s) \<and> \<not> isWhiteSpace (last s))"
  with False have h: "\<not> isWhiteSpace (hd s)" and l: "\<not> isWhiteSpace (last s)" by auto
  from False h have a: "dropWhile isWhiteSpace s = s" by (cases s) auto
  from False l have b: "dropWhile isWhiteSpace (rev s) = rev s"
    by (cases "rev s") (auto simp: last_rev[symmetric] simp del: last_rev) 
  show ?thesis by (simp add: trim_def a b)
qed

lemma trim_ends: "trim s = [] \<or> (\<not> isWhiteSpace (hd (trim s)) \<and> \<not> isWhiteSpace (last (trim s)))"
proof (cases "trim s = []")
  case True then show ?thesis by simp
next
  case False
  let ?t = "dropWhile isWhiteSpace s"
  let ?u = "dropWhile isWhiteSpace (rev ?t)"
  have ts: "trim s = rev ?u" by (simp add: trim_def)
  with False have u: "?u \<noteq> []" by simp
  then have hu: "\<not> isWhiteSpace (hd ?u)" by (metis hd_dropWhile)
  from u have tne: "?t \<noteq> []" by (cases "dropWhile isWhiteSpace s") simp_all
  then have ht: "\<not> isWhiteSpace (hd ?t)" by (metis hd_dropWhile)
  have "\<exists>k. ?u = drop k (rev ?t)" by (metis dropWhile_eq_drop)
  then obtain k where k: "?u = drop k (rev ?t)" ..
  then have "rev ?u = take (length ?t - k) ?t" by (simp add: rev_drop)
  moreover from u k have "length ?t - k > 0" by auto
  ultimately have "hd (rev ?u) = hd ?t" by (metis hd_take)
  with ht have 1: "\<not> isWhiteSpace (hd (trim s))" by (simp add: ts)
  from hu u have 2: "\<not> isWhiteSpace (last (trim s))" by (simp add: ts last_rev)
  from 1 2 show ?thesis by simp
qed

lemma trim_idem: "trim (trim s) = trim s"
  using trim_ends [of s] by (rule trim_fixed)

subsection \<open>The loop of the CSV parser\<close>

lemma parseCSVLoop_result: "parseCSVLoop result current q l = result @ parseCSVLoop [] current q l"
proof (induction l arbitrary: result current q)
  case Nil
  show ?case by simp
next
  case (Cons c rest)
  show ?case
  proof (cases "c = CHR 0x22")
    case True
    then show ?thesis using Cons [of result current "\<not> q"] by simp
  next
    case nq: False
    show ?thesis
    proof (cases "c = CHR '','' \<and> \<not> q")
      case True
      have "parseCSVLoop (result @ [trim current]) [] q rest
            = (result @ [trim current]) @ parseCSVLoop [] [] q rest"
        by (rule Cons)
      moreover have "parseCSVLoop [trim current] [] q rest = [trim current] @ parseCSVLoop [] [] q rest"
        by (rule Cons)
      ultimately show ?thesis using nq True by simp
    next
      case False
      then show ?thesis using nq Cons [of result "current @ [c]" q] by auto
    qed
  qed
qed

lemma parseCSVLoop_plain:
  "CHR 0x22 \<notin> set f \<Longrightarrow> CHR '','' \<notin> set f
    \<Longrightarrow> parseCSVLoop result current q (f @ rest) = parseCSVLoop result (current @ f) q rest"
  by (induction f arbitrary: current) auto

lemma parseCSVLoop_quoted:
  "CHR 0x22 \<notin> set f
    \<Longrightarrow> parseCSVLoop result current True (f @ rest) = parseCSVLoop result (current @ f) True rest"
  by (induction f arbitrary: current) auto

lemma parseCSVLoop_fields:
  "x \<in> set (parseCSVLoop result current q l) \<Longrightarrow> CHR 0x22 \<notin> set current
    \<Longrightarrow> x \<in> set result \<or> (trim x = x \<and> CHR 0x22 \<notin> set x)"
proof (induction l arbitrary: result current q)
  case Nil
  then show ?case using set_trim [of current] by (auto simp: trim_idem)
next
  case (Cons c rest)
  show ?case
  proof (cases "c = CHR 0x22")
    case True
    then show ?thesis using Cons.IH [of result current "\<not> q"] Cons.prems by simp
  next
    case nq: False
    show ?thesis
    proof (cases "c = CHR '','' \<and> \<not> q")
      case True
      with nq Cons.prems have "x \<in> set (parseCSVLoop (result @ [trim current]) [] q rest)" by simp
      then have "x \<in> set (result @ [trim current]) \<or> (trim x = x \<and> CHR 0x22 \<notin> set x)"
        by (rule Cons.IH) simp
      then show ?thesis using set_trim [of current] Cons.prems(2) by (auto simp: trim_idem)
    next
      case False
      with nq Cons.prems have "x \<in> set (parseCSVLoop result (current @ [c]) q rest)" by auto
      moreover from nq Cons.prems(2) have "CHR 0x22 \<notin> set (current @ [c])" by simp
      ultimately show ?thesis by (rule Cons.IH)
    qed
  qed
qed

lemma parseCSVLoop_nonempty: "parseCSVLoop result current q l \<noteq> []"
  by (induction l arbitrary: result current q) auto

lemma parseCSVLine_field:
  assumes "CHR 0x22 \<notin> set f" and "CHR '','' \<notin> set f"
  shows "parseCSVLine (f @ CHR '','' # rest) = trim f # parseCSVLine rest"
proof -
  have "parseCSVLine (f @ CHR '','' # rest) = parseCSVLoop [] f False (CHR '','' # rest)"
    using parseCSVLoop_plain [OF assms, of "[]" "[]" False "CHR '','' # rest"]
    by (simp add: parseCSVLine_def)
  also have "\<dots> = parseCSVLoop [trim f] [] False rest" by simp
  also have "\<dots> = [trim f] @ parseCSVLoop [] [] False rest" by (rule parseCSVLoop_result)
  finally show ?thesis by (simp add: parseCSVLine_def)
qed

lemma parseCSVLine_quoted_field:
  assumes "CHR 0x22 \<notin> set f" and "CHR '','' \<notin> set f" and "CHR 0x22 \<notin> set q"
  shows "parseCSVLine (f @ CHR 0x22 # q @ CHR 0x22 # CHR '','' # rest) = trim (f @ q) # parseCSVLine rest"
proof -
  have "parseCSVLine (f @ CHR 0x22 # q @ CHR 0x22 # CHR '','' # rest)
          = parseCSVLoop [] f False (CHR 0x22 # q @ CHR 0x22 # CHR '','' # rest)"
    using parseCSVLoop_plain [OF assms(1,2), of "[]" "[]" False "CHR 0x22 # q @ CHR 0x22 # CHR '','' # rest"]
    by (simp add: parseCSVLine_def)
  also have "\<dots> = parseCSVLoop [] f True (q @ CHR 0x22 # CHR '','' # rest)" by simp
  also have "\<dots> = parseCSVLoop [] (f @ q) True (CHR 0x22 # CHR '','' # rest)"
    by (rule parseCSVLoop_quoted [OF assms(3)])
  also have "\<dots> = parseCSVLoop [trim (f @ q)] [] False rest" by simp
  also have "\<dots> = [trim (f @ q)] @ parseCSVLoop [] [] False rest" by (rule parseCSVLoop_result)
  finally show ?thesis by (simp add: parseCSVLine_def)
qed

lemma parseCSVLine_quoted_last:
  assumes "CHR 0x22 \<notin> set f" and "CHR '','' \<notin> set f" and "CHR 0x22 \<notin> set q"
  shows "parseCSVLine (f @ CHR 0x22 # q @ [CHR 0x22]) = [trim (f @ q)]"
    and "parseCSVLine (f @ CHR 0x22 # q) = [trim (f @ q)]"
proof -
  have "parseCSVLine (f @ CHR 0x22 # q @ [CHR 0x22])
          = parseCSVLoop [] f False (CHR 0x22 # q @ [CHR 0x22])"
    using parseCSVLoop_plain [OF assms(1,2), of "[]" "[]" False "CHR 0x22 # q @ [CHR 0x22]"]
    by (simp add: parseCSVLine_def)
  also have "\<dots> = parseCSVLoop [] f True (q @ [CHR 0x22])" by simp
  also have "\<dots> = parseCSVLoop [] (f @ q) True [CHR 0x22]"
    by (rule parseCSVLoop_quoted [OF assms(3)])
  finally show "parseCSVLine (f @ CHR 0x22 # q @ [CHR 0x22]) = [trim (f @ q)]" by simp
  have "parseCSVLine (f @ CHR 0x22 # q) = parseCSVLoop [] f False (CHR 0x22 # q)"
    using parseCSVLoop_plain [OF assms(1,2), of "[]" "[]" False "CHR 0x22 # q"]
    by (simp add: parseCSVLine_def)
  also have "\<dots> = parseCSVLoop [] f True (q @ [])" by simp
  also have "\<dots> = parseCSVLoop [] (f @ q) True []"
    by (rule parseCSVLoop_quoted [OF assms(3)])
  finally show "parseCSVLine (f @ CHR 0x22 # q) = [trim (f @ q)]" by simp
qed

text \<open>A stretch of a line in which every comma is inside quotes adds its text without the
  quotes to the current field.\<close>

lemma parseCSVLoop_segment:
  "\<forall>i < length f. f ! i = CHR '','' \<longrightarrow> (q \<noteq> odd (quoteCount (take i f)))
    \<Longrightarrow> parseCSVLoop result current q (f @ rest)
        = parseCSVLoop result (current @ unquoted f) (q \<noteq> odd (quoteCount f)) rest"
proof (induction f arbitrary: current q)
  case Nil
  show ?case by (simp add: unquoted_def quoteCount_def)
next
  case (Cons c f)
  have step: "f ! i = CHR '','' \<longrightarrow> (q \<noteq> odd (quoteCount (take (Suc i) (c # f))))" if "i < length f" for i
    using Cons.prems [rule_format, of "Suc i"] that by simp
  show ?case
  proof (cases "c = CHR 0x22")
    case True
    have "\<forall>i < length f. f ! i = CHR '','' \<longrightarrow> ((\<not> q) \<noteq> odd (quoteCount (take i f)))"
      using step True by (auto simp: quoteCount_def)
    from Cons.IH [OF this, of current] True show ?thesis
      by (auto simp: quoteCount_def unquoted_def)
  next
    case nq: False
    have h: "\<forall>i < length f. f ! i = CHR '','' \<longrightarrow> (q \<noteq> odd (quoteCount (take i f)))"
      using step nq by (auto simp: quoteCount_def)
    have "c = CHR '','' \<longrightarrow> q"
      using Cons.prems [rule_format, of 0] by (simp add: quoteCount_def)
    with Cons.IH [OF h, of "current @ [c]"] nq show ?thesis
      by (auto simp: quoteCount_def unquoted_def)
  qed
qed

lemma commasInsideQuotes_False:
  "commasInsideQuotes f \<Longrightarrow> \<forall>i < length f. f ! i = CHR '','' \<longrightarrow> (False \<noteq> odd (quoteCount (take i f)))"
  by (simp add: commasInsideQuotes_def)

lemma parseCSVLine_last_field:
  assumes "commasInsideQuotes f"
  shows "parseCSVLine f = [trim (unquoted f)]"
  using parseCSVLoop_segment [OF commasInsideQuotes_False [OF assms], of "[]" "[]" "[]"]
  by (simp add: parseCSVLine_def)

lemma parseCSVLine_inner_field:
  assumes "commasInsideQuotes f" and "even (quoteCount f)"
  shows "parseCSVLine (f @ CHR '','' # rest) = trim (unquoted f) # parseCSVLine rest"
proof -
  have "parseCSVLine (f @ CHR '','' # rest) = parseCSVLoop [] (unquoted f) False (CHR '','' # rest)"
    using parseCSVLoop_segment [OF commasInsideQuotes_False [OF assms(1)], of "[]" "[]" "CHR '','' # rest"] assms(2)
    by (simp add: parseCSVLine_def)
  also have "\<dots> = parseCSVLoop [trim (unquoted f)] [] False rest" by simp
  also have "\<dots> = [trim (unquoted f)] @ parseCSVLoop [] [] False rest" by (rule parseCSVLoop_result)
  finally show ?thesis by (simp add: parseCSVLine_def)
qed

lemma plain_commasInsideQuotes:
  "CHR '','' \<notin> set f \<Longrightarrow> commasInsideQuotes f"
  by (auto simp: commasInsideQuotes_def dest: nth_mem)

lemma plain_unquoted: "CHR 0x22 \<notin> set f \<Longrightarrow> unquoted f = f"
  by (auto simp: unquoted_def filter_id_conv)

lemma csv_line_split:
  "commasInsideQuotes line \<or>
   (\<exists>f rest. line = f @ CHR '','' # rest \<and> commasInsideQuotes f \<and> even (quoteCount f))"
proof (cases "commasInsideQuotes line")
  case True
  then show ?thesis by simp
next
  case False
  define P where "P i \<longleftrightarrow> i < length line \<and> line ! i = CHR '','' \<and> even (quoteCount (take i line))" for i
  from False have ex: "\<exists>i. P i" by (auto simp: commasInsideQuotes_def P_def)
  define k where "k = (LEAST i. P i)"
  from ex have Pk: "P k" unfolding k_def by (metis LeastI)
  have least: "\<not> P j" if "j < k" for j using that unfolding k_def by (rule not_less_Least)
  from Pk have kl: "k < length line" and kc: "line ! k = CHR '',''" and ke: "even (quoteCount (take k line))"
    by (simp_all add: P_def)
  have split: "line = take k line @ CHR '','' # drop (Suc k) line"
    using id_take_nth_drop [OF kl] kc by simp
  have "commasInsideQuotes (take k line)"
    unfolding commasInsideQuotes_def
  proof (intro ballI impI)
    fix i assume i: "i \<in> {..<length (take k line)}" and c: "take k line ! i = CHR '',''"
    from i kl have ik: "i < k" by simp
    with c have "line ! i = CHR '',''" by simp
    moreover from ik have "take i (take k line) = take i line" by (simp add: min_def)
    moreover from ik kl have "i < length line" by simp
    ultimately show "odd (quoteCount (take i (take k line)))"
      using least [OF ik] by (simp add: P_def)
  qed
  with split ke show ?thesis by blast
qed

subsection \<open>The shape of time texts\<close>

lemma digitChar_0: "digitChar 0 = CHR ''0''"
  by (simp add: digitChar_def)

lemma isDigit_digitChar: "k < 10 \<Longrightarrow> isDigit (digitChar k)"
proof -
  assume "k < 10"
  then have "k \<in> {0,1,2,3,4,5,6,7,8,9}" by auto
  then show ?thesis by (auto simp: isDigit_def digitChar_def)
qed

lemma isDigit_plain: "isDigit c \<Longrightarrow> \<not> isWhiteSpace c \<and> c \<noteq> CHR '':''"
  by (auto simp: isDigit_def isWhiteSpace_def)

lemma padStart2_small: "n < 100 \<Longrightarrow> padStart2 (natToString n) = [digitChar (n div 10), digitChar (n mod 10)]"
proof (cases "n < 10")
  case True
  then show ?thesis by (simp add: natToString.simps [of n] padStart2_def digitChar_0)
next
  case False
  assume "n < 100"
  with False have "n div 10 < 10" by simp
  then have "natToString (n div 10) = [digitChar (n div 10)]" by (simp add: natToString.simps [of "n div 10"])
  with False show ?thesis by (simp add: natToString.simps [of n] padStart2_def)
qed

lemma isHHMM_istFallback: "isHHMM (istFallback (Some t))"
proof -
  define uh where "uh = (t div 3600000) mod 24"
  define um where "um = (t div 60000) mod 60"
  define h1 where "h1 = (if um + 30 \<ge> 60 then uh + 5 + 1 else uh + 5)"
  define m where "m = (if um + 30 \<ge> 60 then um + 30 - 60 else um + 30)"
  define h where "h = (if h1 \<ge> 24 then h1 - 24 else h1)"
  have uhr: "0 \<le> uh \<and> uh < 24" and umr: "0 \<le> um \<and> um < 60" by (simp_all add: uh_def um_def)
  have hr: "0 \<le> h \<and> h < 24" using uhr by (auto simp: h_def h1_def)
  have mr: "0 \<le> m \<and> m < 60" using umr by (auto simp: m_def)
  have eq: "istFallback (Some t) = padStart2 (numToString (Some h)) @ '':'' @ padStart2 (numToString (Some m))"
    by (simp add: istFallback_def Let_def h_def h1_def m_def uh_def um_def)
  have "nat h < 100" "nat m < 100" using hr mr by auto
  then have ph: "padStart2 (numToString (Some h)) = [digitChar (nat h div 10), digitChar (nat h mod 10)]"
    and pm: "padStart2 (numToString (Some m)) = [digitChar (nat m div 10), digitChar (nat m mod 10)]"
    using hr mr by (simp_all add: numToString_def padStart2_small)
  have "nat h div 10 < 10" "nat m div 10 < 10" using hr mr by auto
  then show ?thesis
    by (simp add: eq ph pm isHHMM_def isDigit_digitChar)
qed

lemma timeMatchHere_Some:
  "timeMatchHere s = Some (g1, g2) \<Longrightarrow> isHHMM (g1 @ '':'' @ g2)"
  by (erule timeMatchHere.elims) (auto simp: isHHMM_def split: if_splits)

lemma timeMatch_Some: "timeMatch s = Some (g1, g2) \<Longrightarrow> isHHMM (g1 @ '':'' @ g2)"
  by (induction s) (auto split: option.splits dest: timeMatchHere_Some)

lemma isHHMM_timeStringOf:
  "timeMatch text \<noteq> None \<or> arrivalTime \<noteq> None \<Longrightarrow> isHHMM (timeStringOf arrivalTime text)"
  by (auto simp: timeStringOf_def isHHMM_istFallback split: option.splits dest: timeMatch_Some)

lemma trim_digits: "list_all isDigit s \<Longrightarrow> trim s = s"
proof (cases s)
  case Nil then show ?thesis by (simp add: trim_def)
next
  case (Cons a as)
  assume d: "list_all isDigit s"
  with Cons have "\<not> isWhiteSpace (hd s)" by (simp add: isDigit_plain)
  moreover from d Cons have "isDigit (last s)" by (metis last_in_set list.distinct(1) list_all_iff)
  then have "\<not> isWhiteSpace (last s)" by (simp add: isDigit_plain)
  ultimately show ?thesis
    by (intro trim_fixed) simp
qed

lemma timeOfDay_HHMM: "isHHMM (time a) \<Longrightarrow> timeOfDay a \<noteq> None"
proof -
  assume "isHHMM (time a)"
  then obtain h1 h2 m1 m2 where t: "time a = [h1, h2, CHR '':'', m1, m2]"
    and d: "isDigit h1" "isDigit h2" "isDigit m1" "isDigit m2"
    by (auto simp: isHHMM_def split: list.splits)
  from d have sp: "splitOn CHR '':'' (time a) = [[h1, h2], [m1, m2]]"
    by (simp add: t isDigit_plain)
  have "toNumber [h1, h2] \<noteq> None" "toNumber [m1, m2] \<noteq> None"
    using d by (simp_all add: toNumber_def trim_digits)
  then show ?thesis by (auto simp: timeOfDay_def sp elemAt_def)
qed

subsection \<open>The loop of the live adapter\<close>

lemma outsideWindow_iff:
  "outsideWindow (map_option (\<lambda>t. t - now) (arrivalOf newDate r)) \<longleftrightarrow> windowExcludes newDate now r"
  by (auto simp: outsideWindow_def windowExcludes_def split: option.splits)

lemma windowExcludes_Some:
  "arrivaltime r = Some s \<Longrightarrow>
     windowExcludes newDate now r
       \<longleftrightarrow> (\<exists>t. parseBMTCDate newDate s = Some t \<and> (t - now < 0 \<or> t - now > 90 * 60 * 1000))"
  by (auto simp: windowExcludes_def arrivalOf_def split: option.splits)

lemma liveKept_Some: "liveKept newDate now (Some allowed) r \<longleftrightarrow> routeno r \<in> allowed \<and> \<not> windowExcludes newDate now r"
  by (simp add: liveKept_def)

lemma route_name_liveTripOf: "route_name (liveTripOf newDate st r) = routeno r"
  by (simp add: liveTripOf_def)

lemma liveStep_cases:
  "liveStep newDate now allowedRoutes st a r =
     (if \<not> (case allowedRoutes of None \<Rightarrow> True | Some allowed \<Rightarrow> routeno r \<in> allowed) then Inr a
      else if arrivaltime r = None then Inl TypeError
      else if windowExcludes newDate now r then Inr a
      else Inr \<lparr>acc_trips = acc_trips a @ [liveTripOf newDate st r],
               acc_routes = setAdd (routeno r) (acc_routes a),
               acc_towards = (if \<not> truthy (acc_towards a) then Some (towards (liveTripOf newDate st r))
                              else acc_towards a)\<rparr>)"
proof (cases "arrivaltime r")
  case None
  then show ?thesis by (simp add: liveStep_def Let_def split: option.splits)
next
  case (Some s)
  then have ar: "arrivalOf newDate r = parseBMTCDate newDate s" by (simp add: arrivalOf_def)
  have ow: "outsideWindow (map_option (\<lambda>t. t - now) (parseBMTCDate newDate s)) \<longleftrightarrow> windowExcludes newDate now r"
    using outsideWindow_iff [of now newDate r] by (simp add: ar)
  show ?thesis
    by (simp add: liveStep_def Let_def Some ow liveTripOf_def ar split: option.splits)
qed

lemma liveStep_kept:
  "liveStep newDate now allowedRoutes st a r = Inr a' \<Longrightarrow>
     acc_trips a' = acc_trips a @ map (liveTripOf newDate st) (filter (liveKept newDate now allowedRoutes) [r])
   \<and> acc_routes a' = foldl (\<lambda>rs x. setAdd x rs) (acc_routes a)
        (map routeno (filter (liveKept newDate now allowedRoutes) [r]))"
  by (auto simp: liveStep_cases liveKept_def split: if_splits option.splits)

lemma forEachLive_kept:
  "forEachLive newDate now allowedRoutes st a data = Inr a' \<Longrightarrow>
     acc_trips a' = acc_trips a @ map (liveTripOf newDate st) (filter (liveKept newDate now allowedRoutes) data)
   \<and> acc_routes a' = foldl (\<lambda>rs x. setAdd x rs) (acc_routes a)
        (map routeno (filter (liveKept newDate now allowedRoutes) data))"
proof (induction data arbitrary: a)
  case Nil
  then show ?case by simp
next
  case (Cons r rest)
  from Cons.prems obtain a1 where s1: "liveStep newDate now allowedRoutes st a r = Inr a1"
    and s2: "forEachLive newDate now allowedRoutes st a1 rest = Inr a'"
    by (auto split: sum.splits)
  note k1 = liveStep_kept [OF s1] and k2 = Cons.IH [OF s2]
  show ?case
    by (simp add: k1 k2)
qed

lemma forEachLive_arrivaltime:
  "forEachLive newDate now allowedRoutes st a data = Inr a' \<Longrightarrow> x \<in> set data
    \<Longrightarrow> liveKept newDate now allowedRoutes x \<Longrightarrow> arrivaltime x \<noteq> None"
proof (induction data arbitrary: a)
  case Nil
  then show ?case by simp
next
  case (Cons r rest)
  from Cons.prems(1) obtain a1 where s1: "liveStep newDate now allowedRoutes st a r = Inr a1"
    and s2: "forEachLive newDate now allowedRoutes st a1 rest = Inr a'"
    by (auto split: sum.splits)
  show ?case
  proof (cases "x = r")
    case True
    with s1 Cons.prems(3) show ?thesis
      by (auto simp: liveStep_cases liveKept_def split: if_splits)
  next
    case False
    with Cons.prems(2) have "x \<in> set rest" by simp
    from s2 this Cons.prems(3) show ?thesis by (rule Cons.IH)
  qed
qed

lemma forEachLive_none_allowed:
  "forEachLive newDate now (Some {}) st a data = Inr a"
  by (induction data) (simp_all add: liveStep_cases)

lemma set_foldl_setAdd: "set (foldl (\<lambda>rs x. setAdd x rs) rs0 xs) = set rs0 \<union> set xs"
  by (induction xs arbitrary: rs0) (auto simp: setAdd_def)

lemma distinct_foldl_setAdd: "distinct rs0 \<Longrightarrow> distinct (foldl (\<lambda>rs x. setAdd x rs) rs0 xs)"
  by (induction xs arbitrary: rs0) (auto simp: setAdd_def)

text \<open>The loop throws exactly when a record that passes the allowlist has no arrival text.\<close>

lemma liveStep_returns:
  "liveStep newDate now allowedRoutes st a r = Inl e \<longleftrightarrow>
     e = TypeError \<and> (case allowedRoutes of None \<Rightarrow> True | Some allowed \<Rightarrow> routeno r \<in> allowed)
       \<and> arrivaltime r = None"
  by (auto simp: liveStep_cases split: option.splits)

lemma forEachLive_returns:
  "(\<exists>a'. forEachLive newDate now allowedRoutes st a data = Inr a')
     \<longleftrightarrow> (\<forall>r \<in> set data. (case allowedRoutes of None \<Rightarrow> True | Some allowed \<Rightarrow> routeno r \<in> allowed)
            \<longrightarrow> arrivaltime r \<noteq> None)"
proof (induction data arbitrary: a)
  case Nil
  show ?case by simp
next
  case (Cons r rest)
  show ?case
  proof (cases "liveStep newDate now allowedRoutes st a r")
    case (Inl e)
    with liveStep_returns [of newDate now allowedRoutes st a r e] show ?thesis by auto
  next
    case (Inr a1)
    have "\<not> ((case allowedRoutes of None \<Rightarrow> True | Some allowed \<Rightarrow> routeno r \<in> allowed) \<and> arrivaltime r = None)"
      using liveStep_returns [of newDate now allowedRoutes st a r TypeError] Inr by auto
    with Inr Cons.IH [of a1] show ?thesis by auto
  qed
qed

lemma forEachLive_error:
  "forEachLive newDate now allowedRoutes st a data = Inl e \<Longrightarrow> e = TypeError"
proof (induction data arbitrary: a)
  case Nil
  then show ?case by simp
next
  case (Cons r rest)
  then show ?case
    by (cases "liveStep newDate now allowedRoutes st a r") (auto simp: liveStep_returns)
qed

subsection \<open>The sort\<close>

lemma mset_sortInsert: "mset (sortInsert c x ys) = add_mset x (mset ys)"
  by (induction ys) auto

lemma mset_arraySort: "mset (arraySort c xs) = mset xs"
  by (induction xs) (auto simp: arraySort_def mset_sortInsert)

lemma set_arraySort: "set (arraySort c xs) = set xs"
  by (metis mset_arraySort set_mset_mset)

lemma set_sortInsert: "set (sortInsert c x ys) = insert x (set ys)"
  by (metis mset_sortInsert set_mset_add_mset_insert set_mset_mset)

lemma sorted_sortInsert:
  "sorted_wrt timeLeq ys \<Longrightarrow> timeOfDay x \<noteq> None \<Longrightarrow> \<forall>y \<in> set ys. timeOfDay y \<noteq> None
     \<Longrightarrow> sorted_wrt timeLeq (sortInsert compareTrips x ys)"
proof (induction ys)
  case Nil
  then show ?case by simp
next
  case (Cons y ys)
  from Cons.prems obtain kx ky where kx: "timeOfDay x = Some kx" and ky: "timeOfDay y = Some ky"
    by auto
  show ?case
  proof (cases "sortCompare compareTrips x y \<le> 0")
    case True
    then have le: "kx \<le> ky" by (simp add: sortCompare_def compareTrips_def kx ky)
    have "\<forall>z \<in> set (y # ys). timeLeq x z"
    proof
      fix z assume z: "z \<in> set (y # ys)"
      show "timeLeq x z"
      proof (cases "z = y")
        case True then show ?thesis using le by (simp add: timeLeq_def kx ky)
      next
        case False
        with z have "z \<in> set ys" by simp
        with Cons.prems(1) have "timeLeq y z" by simp
        then show ?thesis using le by (auto simp: timeLeq_def kx ky split: option.splits)
      qed
    qed
    with True Cons.prems(1) show ?thesis by simp
  next
    case False
    then have lt: "ky < kx" by (simp add: sortCompare_def compareTrips_def kx ky)
    have rec: "sorted_wrt timeLeq (sortInsert compareTrips x ys)"
      using Cons.prems by (intro Cons.IH) simp_all
    have "\<forall>z \<in> set (sortInsert compareTrips x ys). timeLeq y z"
      using Cons.prems(1) lt by (auto simp: set_sortInsert timeLeq_def kx ky)
    with False rec show ?thesis by simp
  qed
qed

lemma sorted_arraySort:
  "\<forall>x \<in> set xs. timeOfDay x \<noteq> None \<Longrightarrow> sorted_wrt timeLeq (arraySort compareTrips xs)"
proof (induction xs)
  case Nil
  then show ?case by (simp add: arraySort_def)
next
  case (Cons x xs)
  then have "sorted_wrt timeLeq (arraySort compareTrips xs)" by simp
  moreover from Cons.prems have "timeOfDay x \<noteq> None" by simp
  moreover from Cons.prems have "\<forall>y \<in> set (arraySort compareTrips xs). timeOfDay y \<noteq> None"
    by (simp add: set_arraySort)
  ultimately have "sorted_wrt timeLeq (sortInsert compareTrips x (arraySort compareTrips xs))"
    by (rule sorted_sortInsert)
  then show ?case by (simp add: arraySort_def)
qed

subsection \<open>The loop of the static loader\<close>

lemma route_name_rowTrip: "route_name (rowTrip v) = v ! 1"
  by (simp add: rowTrip_def)

lemma time_rowTrip: "time (rowTrip v) = v ! 2"
  by (simp add: rowTrip_def)

lemma staticStep_rows:
  "acc_trips (staticStep a l) = acc_trips a @ map rowTrip
       (filter (\<lambda>values. 4 \<le> length values) (map parseCSVLine (filter (\<lambda>line. line \<noteq> []) [trim l])))
   \<and> acc_routes (staticStep a l) = foldl (\<lambda>rs x. setAdd x rs) (acc_routes a)
       (map (\<lambda>values. values ! 1)
         (filter (\<lambda>values. 4 \<le> length values) (map parseCSVLine (filter (\<lambda>line. line \<noteq> []) [trim l]))))"
  by (simp add: staticStep_def Let_def rowTrip_def)

lemma foldl_staticStep_rows:
  "acc_trips (foldl staticStep a ls) = acc_trips a @ map rowTrip
       (filter (\<lambda>values. 4 \<le> length values) (map parseCSVLine (filter (\<lambda>line. line \<noteq> []) (map trim ls))))
   \<and> acc_routes (foldl staticStep a ls) = foldl (\<lambda>rs x. setAdd x rs) (acc_routes a)
       (map (\<lambda>values. values ! 1)
         (filter (\<lambda>values. 4 \<le> length values) (map parseCSVLine (filter (\<lambda>line. line \<noteq> []) (map trim ls)))))"
proof (induction ls arbitrary: a)
  case Nil
  show ?case by simp
next
  case (Cons l ls)
  show ?case
    using Cons [of "staticStep a l"] staticStep_rows [of a l] by simp
qed

lemma loadStatic_ok:
  "trips (loadStaticTimetable (StaticResponse True (Some csv))) = map rowTrip (staticRows csv)
   \<and> routes (loadStaticTimetable (StaticResponse True (Some csv)))
       = foldl (\<lambda>rs x. setAdd x rs) [] (map (\<lambda>values. values ! 1) (staticRows csv))"
  using foldl_staticStep_rows [of "emptyAcc None" "drop 1 (splitOn CHR 0x0A csv)"]
  by (simp add: loadStaticTimetable_def loadStaticTry_def Let_def staticRows_def emptyAcc_def)

lemma loadStatic_cases:
  "(\<exists>csv. f = StaticResponse True (Some csv)) \<or>
   loadStaticTimetable f = \<lparr>trips = [], routes = [], result_towards = ''Unknown''\<rparr>"
  by (cases f) (auto simp: loadStaticTimetable_def loadStaticTry_def split: option.splits)

lemma static_routes_trips:
  "set (routes (loadStaticTimetable sf)) = route_name ` set (trips (loadStaticTimetable sf))
   \<and> distinct (routes (loadStaticTimetable sf))"
proof -
  consider csv where "sf = StaticResponse True (Some csv)"
    | "loadStaticTimetable sf = \<lparr>trips = [], routes = [], result_towards = ''Unknown''\<rparr>"
    using loadStatic_cases [of sf] by blast
  then show ?thesis
  proof cases
    case 1
    have "set (map (\<lambda>values. values ! 1) (staticRows csv)) = route_name ` set (map rowTrip (staticRows csv))"
      by (simp add: image_image route_name_rowTrip)
    then show ?thesis
      by (simp add: 1 loadStatic_ok set_foldl_setAdd distinct_foldl_setAdd del: set_map)
  next
    case 2
    then show ?thesis by simp
  qed
qed

subsection \<open>The adapter and the handler as wholes\<close>

lemma convert_kept:
  assumes "convertBMTCToTimetableFormat newDate now data allowedRoutes st = Inr res"
  shows "mset (trips res) = mset (map (liveTripOf newDate st) (filter (liveKept newDate now allowedRoutes) data))"
    and "set (trips res) = liveTripOf newDate st ` {r \<in> set data. liveKept newDate now allowedRoutes r}"
    and "set (routes res) = routeno ` {r \<in> set data. liveKept newDate now allowedRoutes r}"
    and "distinct (routes res)"
proof -
  from assms obtain a where
    fe: "forEachLive newDate now allowedRoutes st (emptyAcc (if truthy st then st else None)) data = Inr a"
    and tr: "trips res = arraySort compareTrips (acc_trips a)" and ro: "routes res = acc_routes a"
    by (auto simp: convertBMTCToTimetableFormat_def Let_def split: sum.splits)
  note k = forEachLive_kept [OF fe]
  from k have t: "acc_trips a = map (liveTripOf newDate st) (filter (liveKept newDate now allowedRoutes) data)"
    by (simp add: emptyAcc_def)
  from k have r: "acc_routes a = foldl (\<lambda>rs x. setAdd x rs) []
        (map routeno (filter (liveKept newDate now allowedRoutes) data))"
    by (simp add: emptyAcc_def)
  show "mset (trips res) = mset (map (liveTripOf newDate st) (filter (liveKept newDate now allowedRoutes) data))"
    by (simp add: tr mset_arraySort t)
  show "set (trips res) = liveTripOf newDate st ` {r \<in> set data. liveKept newDate now allowedRoutes r}"
    by (simp add: tr set_arraySort t)
  show "set (routes res) = routeno ` {r \<in> set data. liveKept newDate now allowedRoutes r}"
    by (simp add: ro r set_foldl_setAdd)
  show "distinct (routes res)"
    by (simp add: ro r distinct_foldl_setAdd)
qed

lemma convert_readable:
  assumes c: "convertBMTCToTimetableFormat newDate now data allowedRoutes st = Inr res"
    and r: "\<forall>r \<in> set data. \<forall>s. arrivaltime r = Some s \<longrightarrow> clockReadable newDate s"
  shows "\<forall>t \<in> set (trips res). isHHMM (time t)"
proof
  fix t assume "t \<in> set (trips res)"
  with convert_kept(2) [OF c] obtain x where x: "x \<in> set data" and t: "t = liveTripOf newDate st x"
    and k: "liveKept newDate now allowedRoutes x"
    by auto
  show "isHHMM (time t)"
  proof (cases "arrivaltime x")
    case None
    from c obtain a where
      fe: "forEachLive newDate now allowedRoutes st (emptyAcc (if truthy st then st else None)) data = Inr a"
      by (auto simp: convertBMTCToTimetableFormat_def Let_def split: sum.splits)
    from forEachLive_arrivaltime [OF fe x k] None show ?thesis by simp
  next
    case (Some s)
    with r x have "clockReadable newDate s" by simp
    then have "timeMatch s \<noteq> None \<or> arrivalOf newDate x \<noteq> None"
      by (simp add: clockReadable_def arrivalOf_def Some)
    then have "isHHMM (timeStringOf (arrivalOf newDate x) s)" by (rule isHHMM_timeStringOf)
    then show ?thesis by (simp add: t liveTripOf_def Some)
  qed
qed

lemma convert_none_allowed:
  "convertBMTCToTimetableFormat newDate now data (Some {}) st
     = Inr \<lparr>trips = [], routes = [],
            result_towards = (if truthy st then the st else ''Unknown'')\<rparr>"
  by (simp add: convertBMTCToTimetableFormat_def forEachLive_none_allowed emptyAcc_def arraySort_def
      truthy_def split: option.splits)

lemma convert_returns:
  "(\<exists>res. convertBMTCToTimetableFormat newDate now data (Some allowed) st = Inr res)
     \<longleftrightarrow> (\<forall>r \<in> set data. routeno r \<in> allowed \<longrightarrow> arrivaltime r \<noteq> None)"
proof -
  let ?a0 = "emptyAcc (if truthy st then st else None)"
  have "(\<exists>res. convertBMTCToTimetableFormat newDate now data (Some allowed) st = Inr res)
     \<longleftrightarrow> (\<exists>a'. forEachLive newDate now (Some allowed) st ?a0 data = Inr a')"
    by (cases "forEachLive newDate now (Some allowed) st ?a0 data")
      (simp_all add: convertBMTCToTimetableFormat_def Let_def)
  then show ?thesis
    using forEachLive_returns [of newDate now "Some allowed" st ?a0 data] by simp
qed

lemma convert_error:
  "convertBMTCToTimetableFormat newDate now data allowedRoutes st = Inl e \<Longrightarrow> e = TypeError"
  by (auto simp: convertBMTCToTimetableFormat_def Let_def split: sum.splits dest: forEachLive_error)

lemma liveTry_Some:
  "liveTry newDate now staticData lf = Inr (Some res) \<Longrightarrow>
     \<exists>data. convertBMTCToTimetableFormat newDate now data (Some (set (routes staticData)))
        (Some (result_towards staticData)) = Inr res"
  by (cases lf) (auto simp: liveTry_def Let_def split: if_splits live_json.splits sum.splits)

lemma liveAttempt_Some:
  "liveAttempt newDate now staticData lf = Some res \<Longrightarrow>
     \<exists>data. convertBMTCToTimetableFormat newDate now data (Some (set (routes staticData)))
        (Some (result_towards staticData)) = Inr res"
  by (auto simp: liveAttempt_def split: sum.splits dest: liveTry_Some)

text \<open>The outer \<^verbatim>\<open>try\<close> block never throws: the answer with status 500 is not taken.\<close>

lemma onRequestTry_Inr:
  "\<exists>resp. onRequestTry newDate now sf lf req = Inr resp"
  by (simp add: onRequestTry_def Let_def)

lemma onRequest_get:
  assumes "http_method req = ''GET''" and "truthy (stopid req)"
  shows "onRequest newDate now sf lf req =
           (case liveAttempt newDate now (loadStaticTimetable sf) lf of
              Some live \<Rightarrow> if trips live \<noteq> [] then timetableResponse live
                          else timetableResponse (loadStaticTimetable sf)
            | None \<Rightarrow> timetableResponse (loadStaticTimetable sf))"
  using assms by (simp add: onRequest_def onRequestTry_def Let_def split: option.splits)

subsection \<open>The examples\<close>

lemma example_convert:
  "convertBMTCToTimetableFormat exampleDate exampleNow exampleFeed (Some {''500D'', ''500A''}) (Some ''Purple Line'')
     = Inr \<lparr>trips = [\<lparr>route_name = ''500A'', time = ''14:30'', towards = ''Purple Line''\<rparr>,
                    \<lparr>route_name = ''500D'', time = ''15:00'', towards = ''Purple Line''\<rparr>],
            routes = [''500D'', ''500A''], result_towards = ''Purple Line''\<rparr>"
  by code_simp

lemma example_readable:
  "\<forall>r \<in> set exampleFeed. \<forall>s. arrivaltime r = Some s \<longrightarrow> clockReadable exampleDate s"
proof -
  have "list_all (\<lambda>r. case arrivaltime r of None \<Rightarrow> True | Some s \<Rightarrow> clockReadable exampleDate s) exampleFeed"
    by code_simp
  then show ?thesis by (auto simp: list_all_iff)
qed

text \<open>An arrival text without a readable clock: the date is invalid, so the window does
  not exclude the record, and the time of its trip is \<^verbatim>\<open>NaN:NaN\<close>, for which the comparator
  has no number.\<close>

lemma example_unreadable:
  "convertBMTCToTimetableFormat exampleDate exampleNow
      [\<lparr>routeno = ''500D'', tostationname = None, arrivaltime = Some ''soon''\<rparr>] None None
     = Inr \<lparr>trips = [\<lparr>route_name = ''500D'', time = ''NaN:NaN'', towards = ''Unknown''\<rparr>],
            routes = [''500D''], result_towards = ''Unknown''\<rparr>
   \<and> timeOfDay \<lparr>route_name = ''500D'', time = ''NaN:NaN'', towards = ''Unknown''\<rparr> = None
   \<and> \<not> isHHMM ''NaN:NaN''"
  by code_simp

subsection \<open>The decision of the orchestrator\<close>

text \<open>
  Claim C1. For a \<^verbatim>\<open>GET\<close> request with a stop id, the handler answers with the live result
  whenever the live attempt produced one with at least one trip, whatever the static result
  holds, and with the static result otherwise, also when that is empty. The status is 200
  and the body is a timetable in each case.
\<close>

theorem C1_orchestrator_decision:
  assumes "http_method req = ''GET''" and "truthy (stopid req)"
  shows "onRequest newDate now sf lf req =
           (case liveAttempt newDate now (loadStaticTimetable sf) lf of
              Some live \<Rightarrow> if trips live \<noteq> [] then timetableResponse live
                          else timetableResponse (loadStaticTimetable sf)
            | None \<Rightarrow> timetableResponse (loadStaticTimetable sf))
         \<and> status (onRequest newDate now sf lf req) = 200
         \<and> (\<exists>r. body (onRequest newDate now sf lf req) = TimetableBody r)"
  by (simp add: onRequest_get [OF assms] timetableResponse_def split: option.splits)

text \<open>The example feed is served live over the example timetable; with no static file and
  an empty feed the answer is the empty timetable.\<close>

theorem C1_orchestrator_decision_witness:
  "onRequest exampleDate exampleNow (StaticResponse True (Some exampleCsv))
      (LiveResponse True (JsonBody True (Some exampleFeed))) exampleRequest
     = timetableResponse
         \<lparr>trips = [\<lparr>route_name = ''500A'', time = ''14:30'', towards = ''Purple Line''\<rparr>,
                   \<lparr>route_name = ''500D'', time = ''15:00'', towards = ''Purple Line''\<rparr>],
          routes = [''500D'', ''500A''], result_towards = ''Purple Line''\<rparr>
   \<and> onRequest exampleDate exampleNow StaticRejected (LiveResponse True (JsonBody True (Some [])))
        exampleRequest
     = timetableResponse \<lparr>trips = [], routes = [], result_towards = ''Unknown''\<rparr>"
proof -
  have g: "http_method exampleRequest = ''GET''" and s: "truthy (stopid exampleRequest)"
    by (simp_all add: exampleRequest_def truthy_def)
  have l1: "liveAttempt exampleDate exampleNow (loadStaticTimetable (StaticResponse True (Some exampleCsv)))
       (LiveResponse True (JsonBody True (Some exampleFeed)))
     = Some \<lparr>trips = [\<lparr>route_name = ''500A'', time = ''14:30'', towards = ''Purple Line''\<rparr>,
                   \<lparr>route_name = ''500D'', time = ''15:00'', towards = ''Purple Line''\<rparr>],
          routes = [''500D'', ''500A''], result_towards = ''Purple Line''\<rparr>"
    by code_simp
  have l2: "liveAttempt exampleDate exampleNow (loadStaticTimetable StaticRejected)
       (LiveResponse True (JsonBody True (Some []))) = None"
    by code_simp
  have s2: "loadStaticTimetable StaticRejected = \<lparr>trips = [], routes = [], result_towards = ''Unknown''\<rparr>"
    by code_simp
  from C1_orchestrator_decision [OF g s, of exampleDate exampleNow "StaticResponse True (Some exampleCsv)"
        "LiveResponse True (JsonBody True (Some exampleFeed))"] l1
  have a: "onRequest exampleDate exampleNow (StaticResponse True (Some exampleCsv))
      (LiveResponse True (JsonBody True (Some exampleFeed))) exampleRequest
     = timetableResponse
         \<lparr>trips = [\<lparr>route_name = ''500A'', time = ''14:30'', towards = ''Purple Line''\<rparr>,
                   \<lparr>route_name = ''500D'', time = ''15:00'', towards = ''Purple Line''\<rparr>],
          routes = [''500D'', ''500A''], result_towards = ''Purple Line''\<rparr>"
    by simp
  from C1_orchestrator_decision [OF g s, of exampleDate exampleNow StaticRejected
        "LiveResponse True (JsonBody True (Some []))"] l2
  have b: "onRequest exampleDate exampleNow StaticRejected (LiveResponse True (JsonBody True (Some [])))
        exampleRequest = timetableResponse (loadStaticTimetable StaticRejected)"
    by simp
  from a b s2 show ?thesis by simp
qed

subsection \<open>Failures of the two upstream sources\<close>

text \<open>
  Claim C2. A static fetch that rejects, answers with a status that is not OK or has no
  readable text gives the empty timetable with \<open>towards\<close> \<^verbatim>\<open>Unknown\<close>; an exception of the live attempt is caught and
  leaves no live result; and a \<^verbatim>\<open>GET\<close> request with a stop id is answered with status 200 and
  a timetable, the static one when the live attempt threw.
\<close>

theorem C2_upstream_failures_recovered:
  "loadStaticTimetable StaticRejected = \<lparr>trips = [], routes = [], result_towards = ''Unknown''\<rparr>
   \<and> loadStaticTimetable (StaticResponse False b) = \<lparr>trips = [], routes = [], result_towards = ''Unknown''\<rparr>
   \<and> loadStaticTimetable (StaticResponse ok None) = \<lparr>trips = [], routes = [], result_towards = ''Unknown''\<rparr>
   \<and> (liveTry newDate now staticData lf = Inl e \<longrightarrow> liveAttempt newDate now staticData lf = None)
   \<and> (http_method req = ''GET'' \<and> truthy (stopid req) \<longrightarrow>
        status (onRequest newDate now sf lf req) = 200
        \<and> (\<exists>r. body (onRequest newDate now sf lf req) = TimetableBody r)
        \<and> (liveTry newDate now (loadStaticTimetable sf) lf = Inl e \<longrightarrow>
             onRequest newDate now sf lf req = timetableResponse (loadStaticTimetable sf)))"
proof -
  have 1: "loadStaticTimetable StaticRejected = \<lparr>trips = [], routes = [], result_towards = ''Unknown''\<rparr>"
    by (simp add: loadStaticTimetable_def loadStaticTry_def)
  have 2: "loadStaticTimetable (StaticResponse False b) = \<lparr>trips = [], routes = [], result_towards = ''Unknown''\<rparr>"
    by (simp add: loadStaticTimetable_def loadStaticTry_def)
  have 5: "loadStaticTimetable (StaticResponse ok None) = \<lparr>trips = [], routes = [], result_towards = ''Unknown''\<rparr>"
    by (simp add: loadStaticTimetable_def loadStaticTry_def)
  have 3: "liveTry newDate now sd lf = Inl e \<longrightarrow> liveAttempt newDate now sd lf = None" for sd
    by (simp add: liveAttempt_def)
  have 4: "status (onRequest newDate now sf lf req) = 200
        \<and> (\<exists>r. body (onRequest newDate now sf lf req) = TimetableBody r)
        \<and> (liveTry newDate now (loadStaticTimetable sf) lf = Inl e \<longrightarrow>
             onRequest newDate now sf lf req = timetableResponse (loadStaticTimetable sf))"
    if g: "http_method req = ''GET''" and s: "truthy (stopid req)"
    using 3 [of "loadStaticTimetable sf"]
    by (auto simp: onRequest_get [OF g s] timetableResponse_def split: option.splits)
  from 1 2 3 4 5 show ?thesis by blast
qed

text \<open>Both fetches reject: the answer is the empty timetable with status 200.\<close>

theorem C2_upstream_failures_recovered_witness:
  "liveTry exampleDate exampleNow (loadStaticTimetable StaticRejected) LiveRejected = Inl FetchError
   \<and> onRequest exampleDate exampleNow StaticRejected LiveRejected exampleRequest
       = timetableResponse \<lparr>trips = [], routes = [], result_towards = ''Unknown''\<rparr>
   \<and> status (onRequest exampleDate exampleNow StaticRejected LiveRejected exampleRequest) = 200"
proof -
  have g: "http_method exampleRequest = ''GET'' \<and> truthy (stopid exampleRequest)"
    by (simp add: exampleRequest_def truthy_def)
  have t: "liveTry exampleDate exampleNow (loadStaticTimetable StaticRejected) LiveRejected = Inl FetchError"
    by (simp add: liveTry_def)
  from C2_upstream_failures_recovered [where b = None and newDate = exampleDate and now = exampleNow
        and staticData = "loadStaticTimetable StaticRejected" and lf = LiveRejected
        and e = FetchError and req = exampleRequest and sf = StaticRejected] g t
  have "onRequest exampleDate exampleNow StaticRejected LiveRejected exampleRequest
          = timetableResponse (loadStaticTimetable StaticRejected)"
    and "status (onRequest exampleDate exampleNow StaticRejected LiveRejected exampleRequest) = 200"
    and "loadStaticTimetable StaticRejected = \<lparr>trips = [], routes = [], result_towards = ''Unknown''\<rparr>"
    by blast+
  with t show ?thesis by simp
qed

subsection \<open>The order of the trips\<close>

text \<open>
  Claim C3 says that the trips of every returned timetable are in non-decreasing order of
  \<^verbatim>\<open>hours * 60 + minutes\<close>. The static loader does not sort: with the live feed down, the
  example timetable is returned with 10:30 before 09:15.
\<close>

theorem C3_static_unsorted_counterexample:
  "body (onRequest exampleDate exampleNow (StaticResponse True (Some exampleCsv)) LiveRejected exampleRequest)
     = TimetableBody
         \<lparr>trips = [\<lparr>route_name = ''500D'', time = ''10:30:00'', towards = ''Purple Line''\<rparr>,
                   \<lparr>route_name = ''500A'', time = ''09:15:00'', towards = ''Purple Line''\<rparr>],
          routes = [''500D'', ''500A''], result_towards = ''Purple Line''\<rparr>
   \<and> \<not> sorted_wrt timeLeq
         [\<lparr>route_name = ''500D'', time = ''10:30:00'', towards = ''Purple Line''\<rparr>,
          \<lparr>route_name = ''500A'', time = ''09:15:00'', towards = ''Purple Line''\<rparr>]
   \<and> timeOfDay \<lparr>route_name = ''500D'', time = ''10:30:00'', towards = ''Purple Line''\<rparr> = Some 630
   \<and> timeOfDay \<lparr>route_name = ''500A'', time = ''09:15:00'', towards = ''Purple Line''\<rparr> = Some 555"
  by code_simp

text \<open>
  Claim C3, amended. The trips of a result of the live adapter are in non-decreasing order of
  \<^verbatim>\<open>hours * 60 + minutes\<close> when every arrival text of the feed has a readable clock; the trips
  of a static result are the rows of the file in the order of the file.
\<close>

theorem C3_live_sorted_static_in_row_order:
  "(convertBMTCToTimetableFormat newDate now data allowedRoutes st = Inr res
      \<and> (\<forall>r \<in> set data. \<forall>s. arrivaltime r = Some s \<longrightarrow> clockReadable newDate s)
     \<longrightarrow> sorted_wrt timeLeq (trips res))
   \<and> trips (loadStaticTimetable (StaticResponse True (Some csv))) = map rowTrip (staticRows csv)"
proof -
  have "sorted_wrt timeLeq (trips res)"
    if c: "convertBMTCToTimetableFormat newDate now data allowedRoutes st = Inr res"
      and r: "\<forall>r \<in> set data. \<forall>s. arrivaltime r = Some s \<longrightarrow> clockReadable newDate s"
  proof -
    from c obtain a where
      "forEachLive newDate now allowedRoutes st (emptyAcc (if truthy st then st else None)) data = Inr a"
      and tr: "trips res = arraySort compareTrips (acc_trips a)"
      by (auto simp: convertBMTCToTimetableFormat_def Let_def split: sum.splits)
    have "\<forall>t \<in> set (trips res). timeOfDay t \<noteq> None"
      using convert_readable [OF c r] by (simp add: timeOfDay_HHMM)
    then have "\<forall>t \<in> set (acc_trips a). timeOfDay t \<noteq> None"
      by (simp add: tr set_arraySort)
    then show ?thesis unfolding tr by (rule sorted_arraySort)
  qed
  then show ?thesis by (simp add: loadStatic_ok)
qed

text \<open>The example feed, whose clocks are all readable, comes out sorted.\<close>

theorem C3_live_sorted_static_in_row_order_witness:
  "sorted_wrt timeLeq
     [\<lparr>route_name = ''500A'', time = ''14:30'', towards = ''Purple Line''\<rparr>,
      \<lparr>route_name = ''500D'', time = ''15:00'', towards = ''Purple Line''\<rparr>]
   \<and> trips (loadStaticTimetable (StaticResponse True (Some exampleCsv))) = map rowTrip (staticRows exampleCsv)"
proof -
  let ?res = "\<lparr>trips = [\<lparr>route_name = ''500A'', time = ''14:30'', towards = ''Purple Line''\<rparr>,
                    \<lparr>route_name = ''500D'', time = ''15:00'', towards = ''Purple Line''\<rparr>],
            routes = [''500D'', ''500A''], result_towards = ''Purple Line''\<rparr>"
  have "sorted_wrt timeLeq (trips ?res)
     \<and> trips (loadStaticTimetable (StaticResponse True (Some exampleCsv))) = map rowTrip (staticRows exampleCsv)"
    using C3_live_sorted_static_in_row_order [where newDate = exampleDate and now = exampleNow
      and data = exampleFeed and allowedRoutes = "Some {''500D'', ''500A''}" and st = "Some ''Purple Line''"
      and res = ?res and csv = exampleCsv] example_convert example_readable
    by blast
  then show ?thesis by simp
qed

subsection \<open>The destination normalizer\<close>

text \<open>
  Claim C4. The normalizer returns \<^verbatim>\<open>Purple Line\<close> when the trimmed destination contains
  \<^verbatim>\<open>KR Pura\<close> (containing includes being equal), else \<^verbatim>\<open>Yellow Line\<close> when it contains
  \<^verbatim>\<open>Silk Board\<close>, else \<^verbatim>\<open>Unknown\<close>, which covers the empty and the missing destination.
\<close>

theorem C4_destination_normalizer:
  "mapDestinationToLine destination =
     (if \<exists>s u v. destination = Some s \<and> trim s = u @ ''KR Pura'' @ v then ''Purple Line''
      else if \<exists>s u v. destination = Some s \<and> trim s = u @ ''Silk Board'' @ v then ''Yellow Line''
      else ''Unknown'')"
proof (cases destination)
  case None
  then show ?thesis by (simp add: mapDestinationToLine_def truthy_def)
next
  case (Some s)
  show ?thesis
  proof (cases "s = []")
    case True
    with Some show ?thesis by (simp add: mapDestinationToLine_def truthy_def trim_Nil)
  next
    case False
    have eq: "trim s = p \<or> includes_str (trim s) p \<longleftrightarrow> (\<exists>u v. trim s = u @ p @ v)" for p
    proof -
      have "trim s = p \<Longrightarrow> trim s = [] @ p @ []" by simp
      then show ?thesis unfolding includes_str_iff by blast
    qed
    from False Some show ?thesis
      by (simp add: mapDestinationToLine_def truthy_def Let_def eq)
  qed
qed

text \<open>A destination with both names is on the Purple Line.\<close>

theorem C4_destination_normalizer_witness:
  "mapDestinationToLine (Some ''  To KR Pura via Silk Board '') = ''Purple Line''
   \<and> mapDestinationToLine (Some ''Central Silk Board'') = ''Yellow Line''
   \<and> mapDestinationToLine (Some ''Kadugodi'') = ''Unknown''
   \<and> mapDestinationToLine (Some '' '') = ''Unknown''
   \<and> mapDestinationToLine None = ''Unknown''"
proof -
  have a: "\<exists>u v. trim ''  To KR Pura via Silk Board '' = u @ ''KR Pura'' @ v"
    unfolding includes_str_iff [symmetric] by code_simp
  have b: "\<not> (\<exists>u v. trim ''Central Silk Board'' = u @ ''KR Pura'' @ v)"
    and c: "\<exists>u v. trim ''Central Silk Board'' = u @ ''Silk Board'' @ v"
    and d: "\<not> (\<exists>u v. trim ''Kadugodi'' = u @ ''KR Pura'' @ v)"
    and e: "\<not> (\<exists>u v. trim ''Kadugodi'' = u @ ''Silk Board'' @ v)"
    and f: "\<not> (\<exists>u v. trim '' '' = u @ ''KR Pura'' @ v)"
    and g: "\<not> (\<exists>u v. trim '' '' = u @ ''Silk Board'' @ v)"
    unfolding includes_str_iff [symmetric] by code_simp+
  show ?thesis
    using C4_destination_normalizer [of "Some ''  To KR Pura via Silk Board ''"]
      C4_destination_normalizer [of "Some ''Central Silk Board''"]
      C4_destination_normalizer [of "Some ''Kadugodi''"]
      C4_destination_normalizer [of "Some '' ''"]
      C4_destination_normalizer [of None]
      a b c d e f g
    by simp
qed

subsection \<open>The allowlist of routes\<close>

text \<open>
  Claim C5. A record whose route is not in the allowlist leaves the accumulated trips as
  they are; every trip of a result of the live adapter has its route in the allowlist; and
  every trip of the live result of a request has its route among the routes of the static
  result.
\<close>

theorem C5_route_allowlist:
  "(routeno r \<notin> allowed \<longrightarrow> liveStep newDate now (Some allowed) st a r = Inr a)
   \<and> (convertBMTCToTimetableFormat newDate now data (Some allowed) st = Inr res
        \<longrightarrow> (\<forall>t \<in> set (trips res). route_name t \<in> allowed))
   \<and> (liveAttempt newDate now staticData lf = Some live
        \<longrightarrow> (\<forall>t \<in> set (trips live). route_name t \<in> set (routes staticData)))"
proof -
  have 1: "routeno r \<notin> allowed \<longrightarrow> liveStep newDate now (Some allowed) st a r = Inr a"
    by (simp add: liveStep_cases)
  have 2: "\<forall>t \<in> set (trips x). route_name t \<in> A"
    if "convertBMTCToTimetableFormat newDate now d (Some A) s = Inr x" for d A s x
    using convert_kept(2) [OF that] by (auto simp: liveKept_Some route_name_liveTripOf)
  have 3: "\<forall>t \<in> set (trips live). route_name t \<in> set (routes staticData)"
    if "liveAttempt newDate now staticData lf = Some live"
    using liveAttempt_Some [OF that] 2 by blast
  from 1 2 3 show ?thesis by blast
qed

text \<open>Route 335E of the example feed is not in the timetable and is left out.\<close>

theorem C5_route_allowlist_witness:
  "routeno (exampleFeed ! 1) = ''335E''
   \<and> liveStep exampleDate exampleNow (Some {''500D'', ''500A''}) (Some ''Purple Line'') (emptyAcc None)
        (exampleFeed ! 1) = Inr (emptyAcc None)
   \<and> route_name \<lparr>route_name = ''500A'', time = ''14:30'', towards = ''Purple Line''\<rparr>
        \<in> {''500D'', ''500A''}
   \<and> route_name \<lparr>route_name = ''500D'', time = ''15:00'', towards = ''Purple Line''\<rparr>
        \<in> {''500D'', ''500A''}"
proof -
  let ?res = "\<lparr>trips = [\<lparr>route_name = ''500A'', time = ''14:30'', towards = ''Purple Line''\<rparr>,
                    \<lparr>route_name = ''500D'', time = ''15:00'', towards = ''Purple Line''\<rparr>],
            routes = [''500D'', ''500A''], result_towards = ''Purple Line''\<rparr>"
  have r: "routeno (exampleFeed ! 1) = ''335E''" by code_simp
  then have n: "routeno (exampleFeed ! 1) \<notin> {''500D'', ''500A''}" by simp
  from C5_route_allowlist [where r = "exampleFeed ! 1" and allowed = "{''500D'', ''500A''}"
      and newDate = exampleDate and now = exampleNow and st = "Some ''Purple Line''"
      and a = "emptyAcc None" and data = exampleFeed and res = ?res] n example_convert
  have "liveStep exampleDate exampleNow (Some {''500D'', ''500A''}) (Some ''Purple Line'') (emptyAcc None)
        (exampleFeed ! 1) = Inr (emptyAcc None)"
    and "\<forall>t \<in> set (trips ?res). route_name t \<in> {''500D'', ''500A''}"
    by blast+
  with r show ?thesis by simp
qed

subsection \<open>The time window\<close>

text \<open>
  Claim C6. A record whose route is allowed and that has an arrival text is excluded, that
  is, leaves the accumulator as it is, exactly when its arrival instant exists and the
  duration until it is below 0 or above \<open>90 * 60 * 1000\<close> milliseconds; otherwise it adds
  its trip. The trips of the adapter's result are, up to order, the trips of the records that
  are allowed and not excluded. The adapter returns a result exactly when every allowed
  record of the feed has an arrival text, and otherwise throws a \<^verbatim>\<open>TypeError\<close>.
\<close>

theorem C6_time_window:
  "(routeno r \<in> allowed \<and> arrivaltime r = Some s \<longrightarrow>
      ((liveStep newDate now (Some allowed) st a r = Inr a)
         \<longleftrightarrow> (\<exists>t. parseBMTCDate newDate s = Some t \<and> (t - now < 0 \<or> t - now > 90 * 60 * 1000)))
      \<and> (\<not> (\<exists>t. parseBMTCDate newDate s = Some t \<and> (t - now < 0 \<or> t - now > 90 * 60 * 1000)) \<longrightarrow>
           (\<exists>a'. liveStep newDate now (Some allowed) st a r = Inr a'
                 \<and> acc_trips a' = acc_trips a @ [liveTripOf newDate st r])))
   \<and> (convertBMTCToTimetableFormat newDate now data (Some allowed) st = Inr res \<longrightarrow>
        mset (trips res) = mset (map (liveTripOf newDate st)
          (filter (\<lambda>r. routeno r \<in> allowed \<and> \<not> windowExcludes newDate now r) data)))
   \<and> ((\<exists>res. convertBMTCToTimetableFormat newDate now data (Some allowed) st = Inr res)
        \<longleftrightarrow> (\<forall>r \<in> set data. routeno r \<in> allowed \<longrightarrow> arrivaltime r \<noteq> None))
   \<and> (convertBMTCToTimetableFormat newDate now data (Some allowed) st = Inl e \<longrightarrow> e = TypeError)"
proof -
  have 1: "(liveStep newDate now (Some allowed) st a r = Inr a)
         \<longleftrightarrow> (\<exists>t. parseBMTCDate newDate s = Some t \<and> (t - now < 0 \<or> t - now > 90 * 60 * 1000))"
    if al: "routeno r \<in> allowed" and ar: "arrivaltime r = Some s"
  proof (cases "windowExcludes newDate now r")
    case True
    with al ar show ?thesis
      using windowExcludes_Some [OF ar, of newDate now] by (simp add: liveStep_cases)
  next
    case False
    have "acc_trips a @ [liveTripOf newDate st r] \<noteq> acc_trips a" by simp
    then have "liveStep newDate now (Some allowed) st a r \<noteq> Inr a"
      using al ar False by (auto simp: liveStep_cases dest: arg_cong [where f = acc_trips])
    with False show ?thesis
      using windowExcludes_Some [OF ar, of newDate now] by simp
  qed
  have 2: "\<exists>a'. liveStep newDate now (Some allowed) st a r = Inr a'
                 \<and> acc_trips a' = acc_trips a @ [liveTripOf newDate st r]"
    if al: "routeno r \<in> allowed" and ar: "arrivaltime r = Some s"
      and n: "\<not> (\<exists>t. parseBMTCDate newDate s = Some t \<and> (t - now < 0 \<or> t - now > 90 * 60 * 1000))"
  proof -
    from n have "\<not> windowExcludes newDate now r"
      using windowExcludes_Some [OF ar, of newDate now] by simp
    with al ar show ?thesis by (simp add: liveStep_cases)
  qed
  have 3: "mset (trips res) = mset (map (liveTripOf newDate st)
          (filter (\<lambda>r. routeno r \<in> allowed \<and> \<not> windowExcludes newDate now r) data))"
    if "convertBMTCToTimetableFormat newDate now data (Some allowed) st = Inr res"
    using convert_kept(1) [OF that] by (simp add: liveKept_Some [abs_def])
  note 4 = convert_returns [of newDate now data allowed st]
  have 5: "convertBMTCToTimetableFormat newDate now data (Some allowed) st = Inl e \<longrightarrow> e = TypeError"
    by (auto dest: convert_error)
  from 1 2 3 have "(routeno r \<in> allowed \<and> arrivaltime r = Some s \<longrightarrow>
      ((liveStep newDate now (Some allowed) st a r = Inr a)
         \<longleftrightarrow> (\<exists>t. parseBMTCDate newDate s = Some t \<and> (t - now < 0 \<or> t - now > 90 * 60 * 1000)))
      \<and> (\<not> (\<exists>t. parseBMTCDate newDate s = Some t \<and> (t - now < 0 \<or> t - now > 90 * 60 * 1000)) \<longrightarrow>
           (\<exists>a'. liveStep newDate now (Some allowed) st a r = Inr a'
                 \<and> acc_trips a' = acc_trips a @ [liveTripOf newDate st r])))
   \<and> (convertBMTCToTimetableFormat newDate now data (Some allowed) st = Inr res \<longrightarrow>
        mset (trips res) = mset (map (liveTripOf newDate st)
          (filter (\<lambda>r. routeno r \<in> allowed \<and> \<not> windowExcludes newDate now r) data)))"
    by blast
  with 4 5 show ?thesis by (intro conjI) blast+
qed

text \<open>The fourth record of the example feed arrives 140 minutes after the example instant;
  every record of the feed has an arrival text, and the adapter returns.\<close>

theorem C6_time_window_witness:
  "parseBMTCDate exampleDate ''31-10-2025 16:30:00'' = Some 1761908400000
   \<and> 1761908400000 - exampleNow > 90 * 60 * 1000
   \<and> liveStep exampleDate exampleNow (Some {''500D'', ''500A''}) (Some ''Purple Line'') (emptyAcc None)
        (exampleFeed ! 3) = Inr (emptyAcc None)
   \<and> (\<exists>res. convertBMTCToTimetableFormat exampleDate exampleNow exampleFeed
          (Some {''500D'', ''500A''}) (Some ''Purple Line'') = Inr res)"
proof -
  note inst = C6_time_window [where r = "exampleFeed ! 3" and allowed = "{''500D'', ''500A''}"
      and s = "''31-10-2025 16:30:00''" and newDate = exampleDate and now = exampleNow
      and st = "Some ''Purple Line''" and a = "emptyAcc None" and data = exampleFeed]
  have "list_all (\<lambda>r. routeno r \<in> {''500D'', ''500A''} \<longrightarrow> arrivaltime r \<noteq> None) exampleFeed"
    by code_simp
  then have all: "\<forall>r \<in> set exampleFeed. routeno r \<in> {''500D'', ''500A''} \<longrightarrow> arrivaltime r \<noteq> None"
    by (simp add: list_all_iff)
  with inst have ret: "\<exists>res. convertBMTCToTimetableFormat exampleDate exampleNow exampleFeed
          (Some {''500D'', ''500A''}) (Some ''Purple Line'') = Inr res"
    by blast
  have r: "routeno (exampleFeed ! 3) \<in> {''500D'', ''500A''}"
    and s: "arrivaltime (exampleFeed ! 3) = Some ''31-10-2025 16:30:00''"
    and p: "parseBMTCDate exampleDate ''31-10-2025 16:30:00'' = Some 1761908400000"
    and d: "1761908400000 - exampleNow > 90 * 60 * 1000"
    by code_simp+
  from p d have "\<exists>t. parseBMTCDate exampleDate ''31-10-2025 16:30:00'' = Some t
       \<and> (t - exampleNow < 0 \<or> t - exampleNow > 90 * 60 * 1000)"
    by simp
  with inst r s
  have "liveStep exampleDate exampleNow (Some {''500D'', ''500A''}) (Some ''Purple Line'') (emptyAcc None)
        (exampleFeed ! 3) = Inr (emptyAcc None)"
    by blast
  with p d ret show ?thesis by simp
qed

subsection \<open>The routes of a result\<close>

text \<open>
  Claim C7. In the result of the static loader, whatever the fetch did, and in every result
  of the live adapter, the routes are the route names of the trips, each once.
\<close>

theorem C7_routes_of_trips:
  "set (routes (loadStaticTimetable sf)) = route_name ` set (trips (loadStaticTimetable sf))
   \<and> distinct (routes (loadStaticTimetable sf))
   \<and> (convertBMTCToTimetableFormat newDate now data allowedRoutes st = Inr res \<longrightarrow>
        set (routes res) = route_name ` set (trips res) \<and> distinct (routes res))"
proof -
  have "set (routes res) = route_name ` set (trips res) \<and> distinct (routes res)"
    if c: "convertBMTCToTimetableFormat newDate now data allowedRoutes st = Inr res"
    using convert_kept(2,3,4) [OF c] by (simp add: image_image route_name_liveTripOf)
  with static_routes_trips [of sf] show ?thesis by blast
qed

text \<open>The routes of the example's live result.\<close>

theorem C7_routes_of_trips_witness:
  "set [''500D'', ''500A'']
     = route_name ` set [\<lparr>route_name = ''500A'', time = ''14:30'', towards = ''Purple Line''\<rparr>,
                         \<lparr>route_name = ''500D'', time = ''15:00'', towards = ''Purple Line''\<rparr>]
   \<and> distinct [''500D'', ''500A'']"
proof -
  let ?res = "\<lparr>trips = [\<lparr>route_name = ''500A'', time = ''14:30'', towards = ''Purple Line''\<rparr>,
                    \<lparr>route_name = ''500D'', time = ''15:00'', towards = ''Purple Line''\<rparr>],
            routes = [''500D'', ''500A''], result_towards = ''Purple Line''\<rparr>"
  from C7_routes_of_trips [where newDate = exampleDate and now = exampleNow and data = exampleFeed
      and allowedRoutes = "Some {''500D'', ''500A''}" and st = "Some ''Purple Line''" and res = ?res]
    example_convert
  have "set (routes ?res) = route_name ` set (trips ?res) \<and> distinct (routes ?res)"
    by blast
  then show ?thesis by simp
qed

subsection \<open>The CSV parser\<close>

text \<open>
  Claim C8. In \<^verbatim>\<open>parseCSVLine\<close>, a comma outside quotes ends a field, which is trimmed; a
  quote toggles the quoted mode, in which a comma is content, so a field with a quoted span
  is the text before the span and the text of the span, trimmed, whether a comma follows or
  the line ends, and the text \<^verbatim>\<open>"a,b"\<close> parses to \<^verbatim>\<open>a,b\<close>; after a quote that is never closed the
  rest of the line is the last field, and the parser returns; every line has at least one
  field, and every field is trimmed and free of quotes. A line without comma and quote is
  one field, its text trimmed. In general, a line in which every comma is inside quotes is
  one field, its text without the quotes, trimmed; a stretch of that kind with an even number
  of quotes before a comma is the first field, and the rest of the line gives the others;
  and every line is of one of the two kinds, so that all fields of every line are fixed. The
  trips of the static loader come from the lines after the first, trimmed, not empty, parsed,
  with four fields or more.
\<close>

theorem C8_csv_parser:
  "(CHR 0x22 \<notin> set f \<and> CHR '','' \<notin> set f \<longrightarrow>
      parseCSVLine (f @ CHR '','' # rest) = trim f # parseCSVLine rest)
   \<and> (CHR 0x22 \<notin> set f \<and> CHR '','' \<notin> set f \<and> CHR 0x22 \<notin> set q \<longrightarrow>
      parseCSVLine (f @ CHR 0x22 # q @ CHR 0x22 # CHR '','' # rest) = trim (f @ q) # parseCSVLine rest
      \<and> parseCSVLine (f @ CHR 0x22 # q @ [CHR 0x22]) = [trim (f @ q)]
      \<and> parseCSVLine (f @ CHR 0x22 # q) = [trim (f @ q)])
   \<and> (CHR 0x22 \<notin> set f \<and> CHR '','' \<notin> set f \<longrightarrow> parseCSVLine f = [trim f])
   \<and> (commasInsideQuotes f \<longrightarrow> parseCSVLine f = [trim (unquoted f)])
   \<and> (commasInsideQuotes f \<and> even (quoteCount f) \<longrightarrow>
        parseCSVLine (f @ CHR '','' # rest) = trim (unquoted f) # parseCSVLine rest)
   \<and> (commasInsideQuotes line
        \<or> (\<exists>g more. line = g @ CHR '','' # more \<and> commasInsideQuotes g \<and> even (quoteCount g)))
   \<and> parseCSVLine ''\"a,b\"'' = [''a,b'']
   \<and> parseCSVLine line \<noteq> []
   \<and> (\<forall>x \<in> set (parseCSVLine line). trim x = x \<and> CHR 0x22 \<notin> set x)
   \<and> trips (loadStaticTimetable (StaticResponse True (Some csv)))
       = map rowTrip
           (filter (\<lambda>values. 4 \<le> length values)
             (map parseCSVLine
               (filter (\<lambda>line. line \<noteq> []) (map trim (drop 1 (splitOn CHR 0x0A csv))))))"
proof -
  have 1: "parseCSVLine ''\"a,b\"'' = [''a,b'']" by code_simp
  have 2: "parseCSVLine line \<noteq> []" by (simp add: parseCSVLine_def parseCSVLoop_nonempty)
  have 3: "\<forall>x \<in> set (parseCSVLine line). trim x = x \<and> CHR 0x22 \<notin> set x"
  proof
    fix x assume "x \<in> set (parseCSVLine line)"
    then have "x \<in> set (parseCSVLoop [] [] False line)" by (simp add: parseCSVLine_def)
    then have "x \<in> set [] \<or> (trim x = x \<and> CHR 0x22 \<notin> set x)"
      by (rule parseCSVLoop_fields) simp
    then show "trim x = x \<and> CHR 0x22 \<notin> set x" by simp
  qed
  have 4: "trips (loadStaticTimetable (StaticResponse True (Some csv)))
       = map rowTrip
           (filter (\<lambda>values. 4 \<le> length values)
             (map parseCSVLine
               (filter (\<lambda>line. line \<noteq> []) (map trim (drop 1 (splitOn CHR 0x0A csv))))))"
    using loadStatic_ok [of csv] by (simp add: staticRows_def)
  have 5: "CHR 0x22 \<notin> set f \<and> CHR '','' \<notin> set f \<longrightarrow> parseCSVLine f = [trim f]"
    using parseCSVLine_last_field [OF plain_commasInsideQuotes, of f] by (simp add: plain_unquoted)
  have 6: "commasInsideQuotes f \<longrightarrow> parseCSVLine f = [trim (unquoted f)]"
    by (simp add: parseCSVLine_last_field)
  have 7: "commasInsideQuotes f \<and> even (quoteCount f) \<longrightarrow>
        parseCSVLine (f @ CHR '','' # rest) = trim (unquoted f) # parseCSVLine rest"
    by (simp add: parseCSVLine_inner_field)
  note 8 = csv_line_split [of line]
  have old: "(CHR 0x22 \<notin> set f \<and> CHR '','' \<notin> set f \<longrightarrow>
      parseCSVLine (f @ CHR '','' # rest) = trim f # parseCSVLine rest)
   \<and> (CHR 0x22 \<notin> set f \<and> CHR '','' \<notin> set f \<and> CHR 0x22 \<notin> set q \<longrightarrow>
      parseCSVLine (f @ CHR 0x22 # q @ CHR 0x22 # CHR '','' # rest) = trim (f @ q) # parseCSVLine rest
      \<and> parseCSVLine (f @ CHR 0x22 # q @ [CHR 0x22]) = [trim (f @ q)]
      \<and> parseCSVLine (f @ CHR 0x22 # q) = [trim (f @ q)])"
    using parseCSVLine_field [of f rest] parseCSVLine_quoted_field [of f q rest]
      parseCSVLine_quoted_last [of f q]
    by blast
  from old 1 2 3 4 5 6 7 8 show ?thesis by (intro conjI) (blast | assumption)+
qed

text \<open>A plain field, a field with a quoted span, an unclosed quote, the example file, whose
  header and short last row give no trip, a plain last field, and a field with two quoted
  spans and text after each, alone and before a comma.\<close>

theorem C8_csv_parser_witness:
  "parseCSVLine ('' x '' @ CHR '','' # ''y'') = [''x'', ''y'']
   \<and> parseCSVLine (''KR'' @ CHR 0x22 # '' Pura, Tin '' @ CHR 0x22 # CHR '','' # ''y'') = [''KR Pura, Tin'', ''y'']
   \<and> parseCSVLine (''KR'' @ CHR 0x22 # '' Pura, Tin '') = [''KR Pura, Tin'']
   \<and> trim ''a,b'' = ''a,b'' \<and> CHR 0x22 \<notin> set ''a,b''
   \<and> trips (loadStaticTimetable (StaticResponse True (Some exampleCsv)))
       = [\<lparr>route_name = ''500D'', time = ''10:30:00'', towards = ''Purple Line''\<rparr>,
          \<lparr>route_name = ''500A'', time = ''09:15:00'', towards = ''Purple Line''\<rparr>]
   \<and> parseCSVLine '' KR Pura '' = [''KR Pura'']
   \<and> parseCSVLine ''a \"b,c\" d\"e,\" '' = [''a b,c de,'']
   \<and> parseCSVLine (''a \"b,c\" d\"e,\" '' @ CHR '','' # '' KR Pura '') = [''a b,c de,'', ''KR Pura'']"
proof -
  note plain = C8_csv_parser [where f = "'' KR Pura ''"]
    and spans = C8_csv_parser [where f = "''a \"b,c\" d\"e,\" ''" and rest = "'' KR Pura ''"]
  have hp: "CHR 0x22 \<notin> set '' KR Pura '' \<and> CHR '','' \<notin> set '' KR Pura ''" by simp
  have hs: "commasInsideQuotes ''a \"b,c\" d\"e,\" '' \<and> even (quoteCount ''a \"b,c\" d\"e,\" '')"
    by code_simp
  have ev: "trim '' KR Pura '' = ''KR Pura''" "trim (unquoted ''a \"b,c\" d\"e,\" '') = ''a b,c de,''"
    by code_simp+
  from plain hp have n1: "parseCSVLine '' KR Pura '' = [trim '' KR Pura '']" by blast
  from spans hs have n2: "parseCSVLine ''a \"b,c\" d\"e,\" '' = [trim (unquoted ''a \"b,c\" d\"e,\" '')]"
    and n3: "parseCSVLine (''a \"b,c\" d\"e,\" '' @ CHR '','' # '' KR Pura '')
       = trim (unquoted ''a \"b,c\" d\"e,\" '') # parseCSVLine '' KR Pura ''"
    by blast+
  have new: "parseCSVLine '' KR Pura '' = [''KR Pura'']
   \<and> parseCSVLine ''a \"b,c\" d\"e,\" '' = [''a b,c de,'']
   \<and> parseCSVLine (''a \"b,c\" d\"e,\" '' @ CHR '','' # '' KR Pura '') = [''a b,c de,'', ''KR Pura'']"
    using n1 n2 n3 unfolding ev by simp
  note inst = C8_csv_parser [where f = "'' x ''" and rest = "''y''" and line = "''\"a,b\"''" and csv = exampleCsv]
    C8_csv_parser [where f = "''KR''" and q = "'' Pura, Tin ''" and rest = "''y''"]
  have h1: "CHR 0x22 \<notin> set '' x '' \<and> CHR '','' \<notin> set '' x ''"
    and h2: "CHR 0x22 \<notin> set ''KR'' \<and> CHR '','' \<notin> set ''KR'' \<and> CHR 0x22 \<notin> set '' Pura, Tin ''"
    by simp_all
  have e: "parseCSVLine ''y'' = [''y'']" "trim '' x '' = ''x''" "trim (''KR'' @ '' Pura, Tin '') = ''KR Pura, Tin''"
    "map rowTrip
           (filter (\<lambda>values. 4 \<le> length values)
             (map parseCSVLine
               (filter (\<lambda>line. line \<noteq> []) (map trim (drop 1 (splitOn CHR 0x0A exampleCsv))))))
      = [\<lparr>route_name = ''500D'', time = ''10:30:00'', towards = ''Purple Line''\<rparr>,
          \<lparr>route_name = ''500A'', time = ''09:15:00'', towards = ''Purple Line''\<rparr>]"
    by code_simp+
  from inst(1) h1 have a: "parseCSVLine ('' x '' @ CHR '','' # ''y'') = trim '' x '' # parseCSVLine ''y''"
    by blast
  from inst(2) h2 have b: "parseCSVLine (''KR'' @ CHR 0x22 # '' Pura, Tin '' @ CHR 0x22 # CHR '','' # ''y'')
      = trim (''KR'' @ '' Pura, Tin '') # parseCSVLine ''y''"
    and c: "parseCSVLine (''KR'' @ CHR 0x22 # '' Pura, Tin '') = [trim (''KR'' @ '' Pura, Tin '')]"
    by blast+
  from inst(1) have d: "parseCSVLine ''\"a,b\"'' = [''a,b'']"
    and f: "\<forall>x \<in> set (parseCSVLine ''\"a,b\"''). trim x = x \<and> CHR 0x22 \<notin> set x"
    and g: "trips (loadStaticTimetable (StaticResponse True (Some exampleCsv)))
       = map rowTrip
           (filter (\<lambda>values. 4 \<le> length values)
             (map parseCSVLine
               (filter (\<lambda>line. line \<noteq> []) (map trim (drop 1 (splitOn CHR 0x0A exampleCsv))))))"
    by blast+
  from f have f': "trim ''a,b'' = ''a,b'' \<and> CHR 0x22 \<notin> set ''a,b''" unfolding d by simp
  from a b c f' g have "parseCSVLine ('' x '' @ CHR '','' # ''y'') = [''x'', ''y'']
   \<and> parseCSVLine (''KR'' @ CHR 0x22 # '' Pura, Tin '' @ CHR 0x22 # CHR '','' # ''y'') = [''KR Pura, Tin'', ''y'']
   \<and> parseCSVLine (''KR'' @ CHR 0x22 # '' Pura, Tin '') = [''KR Pura, Tin'']
   \<and> trim ''a,b'' = ''a,b'' \<and> CHR 0x22 \<notin> set ''a,b''
   \<and> trips (loadStaticTimetable (StaticResponse True (Some exampleCsv)))
       = [\<lparr>route_name = ''500D'', time = ''10:30:00'', towards = ''Purple Line''\<rparr>,
          \<lparr>route_name = ''500A'', time = ''09:15:00'', towards = ''Purple Line''\<rparr>]"
    unfolding e by simp
  with new show ?thesis by (intro conjI) (blast | assumption)+
qed

subsection \<open>The shape of a trip's time\<close>

text \<open>
  Claim C9 says that the time of every trip of a returned timetable has the shape
  \<^verbatim>\<open>HH:MM\<close>, also when the column of the static file has seconds. The static loader copies
  the column: with the live feed down, the example timetable is returned with the time
  \<^verbatim>\<open>10:30:00\<close>.
\<close>

theorem C9_static_time_counterexample:
  "body (onRequest exampleDate exampleNow (StaticResponse True (Some exampleCsv)) LiveRejected exampleRequest)
     = TimetableBody
         \<lparr>trips = [\<lparr>route_name = ''500D'', time = ''10:30:00'', towards = ''Purple Line''\<rparr>,
                   \<lparr>route_name = ''500A'', time = ''09:15:00'', towards = ''Purple Line''\<rparr>],
          routes = [''500D'', ''500A''], result_towards = ''Purple Line''\<rparr>
   \<and> \<not> isHHMM ''10:30:00''"
  by code_simp

text \<open>
  Claim C9, amended. The time of every trip of a result of the live adapter has the shape
  \<^verbatim>\<open>HH:MM\<close> when every arrival text of the feed has a readable clock; the time of a trip of a
  static result is the third field of its row as the parser returns it.
\<close>

theorem C9_live_time_shape_static_verbatim:
  "(convertBMTCToTimetableFormat newDate now data allowedRoutes st = Inr res
      \<and> (\<forall>r \<in> set data. \<forall>s. arrivaltime r = Some s \<longrightarrow> clockReadable newDate s)
     \<longrightarrow> (\<forall>t \<in> set (trips res). isHHMM (time t)))
   \<and> map time (trips (loadStaticTimetable (StaticResponse True (Some csv))))
       = map (\<lambda>values. values ! 2) (staticRows csv)"
proof -
  have "map time (trips (loadStaticTimetable (StaticResponse True (Some csv))))
       = map (\<lambda>values. values ! 2) (staticRows csv)"
    by (simp add: loadStatic_ok time_rowTrip)
  with convert_readable [of newDate now data allowedRoutes st res] show ?thesis by blast
qed

text \<open>The times of the example's live result and of the example timetable.\<close>

theorem C9_live_time_shape_static_verbatim_witness:
  "isHHMM ''14:30'' \<and> isHHMM ''15:00''
   \<and> map time (trips (loadStaticTimetable (StaticResponse True (Some exampleCsv))))
       = [''10:30:00'', ''09:15:00'']"
proof -
  let ?res = "\<lparr>trips = [\<lparr>route_name = ''500A'', time = ''14:30'', towards = ''Purple Line''\<rparr>,
                    \<lparr>route_name = ''500D'', time = ''15:00'', towards = ''Purple Line''\<rparr>],
            routes = [''500D'', ''500A''], result_towards = ''Purple Line''\<rparr>"
  note inst = C9_live_time_shape_static_verbatim [where newDate = exampleDate and now = exampleNow
      and data = exampleFeed and allowedRoutes = "Some {''500D'', ''500A''}" and st = "Some ''Purple Line''"
      and res = ?res and csv = exampleCsv]
  from inst example_convert example_readable
  have a: "\<forall>t \<in> set (trips ?res). isHHMM (time t)" by blast
  from inst have b: "map time (trips (loadStaticTimetable (StaticResponse True (Some exampleCsv))))
       = map (\<lambda>values. values ! 2) (staticRows exampleCsv)" by blast
  have c: "map (\<lambda>values. values ! 2) (staticRows exampleCsv) = [''10:30:00'', ''09:15:00'']"
    by code_simp
  from a b show ?thesis unfolding c by simp
qed

subsection \<open>No live data without static routes\<close>

text \<open>
  Claim C10. When the static result has no routes, the allowlist handed to the live adapter
  is the empty set, the adapter's result for any feed has no trips, the live attempt gives
  nothing or a result without trips, the static result has no trips either, and a \<^verbatim>\<open>GET\<close>
  request with a stop id is answered with the static result.
\<close>

theorem C10_no_live_without_static_routes:
  assumes "http_method req = ''GET''" and "truthy (stopid req)"
    and "routes (loadStaticTimetable sf) = []"
  shows "convertBMTCToTimetableFormat newDate now data (Some (set (routes (loadStaticTimetable sf)))) st
           = Inr \<lparr>trips = [], routes = [], result_towards = (if truthy st then the st else ''Unknown'')\<rparr>
         \<and> (liveAttempt newDate now (loadStaticTimetable sf) lf = None
            \<or> trips (the (liveAttempt newDate now (loadStaticTimetable sf) lf)) = [])
         \<and> trips (loadStaticTimetable sf) = []
         \<and> onRequest newDate now sf lf req = timetableResponse (loadStaticTimetable sf)"
proof -
  have 1: "convertBMTCToTimetableFormat newDate now d (Some (set (routes (loadStaticTimetable sf)))) s
           = Inr \<lparr>trips = [], routes = [], result_towards = (if truthy s then the s else ''Unknown'')\<rparr>"
    for d s
    by (simp add: assms(3) convert_none_allowed)
  have 2: "trips live = []" if "liveAttempt newDate now (loadStaticTimetable sf) lf = Some live" for live
    using liveAttempt_Some [OF that] 1 by auto
  have 3: "trips (loadStaticTimetable sf) = []"
    using static_routes_trips [of sf] assms(3) by simp
  have 4: "onRequest newDate now sf lf req = timetableResponse (loadStaticTimetable sf)"
    using 2 by (simp add: onRequest_get [OF assms(1,2)] split: option.splits)
  from 2 have 5: "liveAttempt newDate now (loadStaticTimetable sf) lf = None
            \<or> trips (the (liveAttempt newDate now (loadStaticTimetable sf) lf)) = []"
    by (cases "liveAttempt newDate now (loadStaticTimetable sf) lf") simp_all
  from 1 3 4 5 show ?thesis by blast
qed

text \<open>With the static fetch rejected, or with a timetable of a header only, the example feed
  is not served.\<close>

theorem C10_no_live_without_static_routes_witness:
  "onRequest exampleDate exampleNow StaticRejected (LiveResponse True (JsonBody True (Some exampleFeed)))
      exampleRequest
     = timetableResponse \<lparr>trips = [], routes = [], result_towards = ''Unknown''\<rparr>
   \<and> onRequest exampleDate exampleNow (StaticResponse True (Some ''trip,route,time,towards''))
        (LiveResponse True (JsonBody True (Some exampleFeed))) exampleRequest
     = timetableResponse \<lparr>trips = [], routes = [], result_towards = ''Unknown''\<rparr>"
proof -
  have g: "http_method exampleRequest = ''GET''" and s: "truthy (stopid exampleRequest)"
    by (simp_all add: exampleRequest_def truthy_def)
  have e1: "loadStaticTimetable StaticRejected = \<lparr>trips = [], routes = [], result_towards = ''Unknown''\<rparr>"
    and e2: "loadStaticTimetable (StaticResponse True (Some ''trip,route,time,towards''))
       = \<lparr>trips = [], routes = [], result_towards = ''Unknown''\<rparr>"
    by code_simp+
  have r1: "routes (loadStaticTimetable StaticRejected) = []"
    and r2: "routes (loadStaticTimetable (StaticResponse True (Some ''trip,route,time,towards''))) = []"
    by (simp_all add: e1 e2)
  from C10_no_live_without_static_routes [OF g s r1, of exampleDate exampleNow exampleFeed None
      "LiveResponse True (JsonBody True (Some exampleFeed))"]
  have a: "onRequest exampleDate exampleNow StaticRejected (LiveResponse True (JsonBody True (Some exampleFeed)))
      exampleRequest = timetableResponse (loadStaticTimetable StaticRejected)"
    by blast
  from C10_no_live_without_static_routes [OF g s r2, of exampleDate exampleNow exampleFeed None
      "LiveResponse True (JsonBody True (Some exampleFeed))"]
  have b: "onRequest exampleDate exampleNow (StaticResponse True (Some ''trip,route,time,towards''))
        (LiveResponse True (JsonBody True (Some exampleFeed))) exampleRequest
     = timetableResponse (loadStaticTimetable (StaticResponse True (Some ''trip,route,time,towards'')))"
    by blast
  from a b show ?thesis by (simp add: e1 e2)
qed

end
